theory Spec2Isabelle
  imports Main "HOL-Library.Word" "HOL-Library.Sublist" "HOL-Library.AList"
begin

section \<open>Values and entities\<close>

text \<open>
  Python values that occur as primary keys, as lookup values and as foreign-key
  attributes. \<open>PyInt\<close> stands for int, long and bool, \<open>PyStr\<close> for str and
  unicode, \<open>PyUUID\<close> for \<^verbatim>\<open>uuid.UUID\<close> (a 128-bit number).
\<close>

datatype pyval = PyNone | PyUUID "128 word" | PyInt int | PyStr string

text \<open>Truth value of a Python object, as an \<^verbatim>\<open>if\<close> or an \<^verbatim>\<open>and\<close> tests it.\<close>

fun truthy :: "pyval \<Rightarrow> bool" where
  "truthy PyNone = False"
| "truthy (PyUUID u) = True"
| "truthy (PyInt i) = (i \<noteq> 0)"
| "truthy (PyStr s) = (s \<noteq> [])"

text \<open>\<^verbatim>\<open>isinstance( v, uuid.UUID )\<close>\<close>

fun is_uuid :: "pyval \<Rightarrow> bool" where
  "is_uuid (PyUUID u) = True"
| "is_uuid v = False"

text \<open>
  The attribute \<^verbatim>\<open>canBeRegd\<close> of an object: absent (a class that does not derive
  from \<^verbatim>\<open>ContextAwareModel\<close>), the method inherited from \<^verbatim>\<open>ContextAwareModel\<close>,
  or a subclass's override, of which only the value it returns on this object is kept.
\<close>

datatype hook = NoHook | ModelHook | Overridden bool

text \<open>
  A model instance. \<open>oid\<close> is the identity of the object (Python's \<^verbatim>\<open>id\<close>): two
  instances of the same row differ in it. \<open>cls\<close> is \<^verbatim>\<open>__class__.__name__\<close>.
  \<open>attrs\<close> holds the other attributes that the code reads by name.
\<close>

record entity =
  oid :: nat
  cls :: string
  pk :: pyval
  hook :: hook
  attrs :: "(string \<times> pyval) list"

text \<open>\<^verbatim>\<open>getattr( obj, name, None )\<close>\<close>

definition getattr :: "entity \<Rightarrow> string \<Rightarrow> pyval" where
  "getattr obj name = (case map_of (attrs obj) name of None \<Rightarrow> PyNone | Some v \<Rightarrow> v)"

text \<open>
  \<^verbatim>\<open>ContextAwareModel.canBeRegd\<close> and its overrides; \<open>None\<close> when the object has no
  such callable attribute.
\<close>

definition canBeRegd :: "entity \<Rightarrow> bool option" where
  "canBeRegd e = (case hook e of
      NoHook \<Rightarrow> None
    | ModelHook \<Rightarrow> Some (pk e \<noteq> PyNone)
    | Overridden b \<Rightarrow> Some b)"

datatype error =
    ValueError
  | KeyError
  | AttributeError
  | ObjectDoesNotExist
  | MultipleObjectsReturned
  | UserError nat

section \<open>ContextManager: the registry\<close>

type_synonym regkey = "string \<times> pyval"

type_synonym savepoint = nat

text \<open>
  A deferred write. The queue of them belongs to the context; the source reaches it
  only through methods that are not in it.
\<close>

type_synonym queued_save = nat

text \<open>
  \<open>pkRegistry\<close> is the dictionary \<^verbatim>\<open>(typename, pk) -> instance\<close>, kept as an
  association list with one pair per key: lookup is \<open>map_of\<close>, a new key goes to the
  end, deletion removes the pair. The list order stands for the unspecified iteration
  order of the dictionary. \<open>savepoints\<close> is the Python list used as a stack, top last.
\<close>

record ContextManager =
  pkRegistry :: "(regkey \<times> entity) list"
  savepoints :: "savepoint list"
  queuedSaves :: "queued_save list"

definition regkey_of :: "entity \<Rightarrow> regkey" where
  "regkey_of e = (cls e, pk e)"

text \<open>
  The test of \<^verbatim>\<open>regd\<close>: the hook's answer when the object has one, otherwise
  \<^verbatim>\<open>(entity is not None) and entity.pk\<close>, whose truth value is that of the key.
\<close>

definition isRegisterable :: "entity option \<Rightarrow> bool" where
  "isRegisterable x = (case x of
      None \<Rightarrow> False
    | Some e \<Rightarrow> (case canBeRegd e of Some b \<Rightarrow> b | None \<Rightarrow> truthy (pk e)))"

definition regd :: "ContextManager \<Rightarrow> entity option \<Rightarrow> entity option \<times> ContextManager" where
  "regd c x =
    (if isRegisterable x then
       (case x of
          None \<Rightarrow> (x, c)
        | Some e \<Rightarrow>
            (case map_of (pkRegistry c) (regkey_of e) of
               None \<Rightarrow> (Some e, c\<lparr>pkRegistry := pkRegistry c @ [(regkey_of e, e)]\<rparr>)
             | Some cached \<Rightarrow> (Some cached, c)))
     else (x, c))"

text \<open>\<^verbatim>\<open>allRegd\<close>, the generator consumed to its end.\<close>

fun allRegd :: "ContextManager \<Rightarrow> entity option list \<Rightarrow> entity option list \<times> ContextManager" where
  "allRegd c [] = ([], c)"
| "allRegd c (e # es) =
    (case regd c e of (r, c') \<Rightarrow>
       (case allRegd c' es of (rs, c'') \<Rightarrow> (r # rs, c'')))"

text \<open>
  A fetch function runs against the context (the query path registers what it loads)
  and returns an instance, \<^verbatim>\<open>None\<close>, or raises. The logger \<^verbatim>\<open>mlog\<close> that
  \<^verbatim>\<open>regdLookup\<close> writes to is not defined in the source and what it writes is
  left out; the arguments of the log calls are evaluated all the same, and the one
  after a fetch reads \<^verbatim>\<open>ret.entityType\<close>, which raises \<^verbatim>\<open>AttributeError\<close>
  for an instance without that attribute, before \<^verbatim>\<open>regd\<close> is called.
\<close>

type_synonym fetchFunc = "ContextManager \<Rightarrow> (error + entity option) \<times> ContextManager"

definition regdLookup ::
  "ContextManager \<Rightarrow> string \<Rightarrow> pyval \<Rightarrow> fetchFunc option \<Rightarrow> (error + entity option) \<times> ContextManager"
where
  "regdLookup c entityType p fetchFunc =
    (case map_of (pkRegistry c) (entityType, p) of
       Some cached \<Rightarrow> (Inr (Some cached), c)
     | None \<Rightarrow>
        (case fetchFunc of
           None \<Rightarrow> (Inr None, c)
         | Some f \<Rightarrow>
            (case f c of
               (Inl err, c') \<Rightarrow> (Inl err, c')
             | (Inr None, c') \<Rightarrow> (Inr None, c')
             | (Inr (Some ret), c') \<Rightarrow>
                 (case map_of (attrs ret) ''entityType'' of
                    None \<Rightarrow> (Inl AttributeError, c')
                  | Some t \<Rightarrow>
                      (case regd c' (Some ret) of (r, c'') \<Rightarrow> (Inr r, c''))))))"

definition registeredEntities :: "ContextManager \<Rightarrow> string \<Rightarrow> (pyval \<times> entity) list" where
  "registeredEntities c entityType =
     map (\<lambda>((t, p), obj). (p, obj)) (filter (\<lambda>((t, p), obj). t = entityType) (pkRegistry c))"

definition flushRegistry :: "ContextManager \<Rightarrow> ContextManager" where
  "flushRegistry c = c\<lparr>pkRegistry := []\<rparr>"

definition ejectFromRegistry :: "ContextManager \<Rightarrow> entity \<Rightarrow> ContextManager" where
  "ejectFromRegistry c obj =
     (let key = (cls obj, pk obj) in
      if key \<in> fst ` set (pkRegistry c)
      then c\<lparr>pkRegistry := AList.delete key (pkRegistry c)\<rparr>
      else c)"

section \<open>The context directory\<close>

text \<open>
  \<^verbatim>\<open>ContextManager.current\<close>, seen from one thread: the argument is the entry of
  \<^verbatim>\<open>s_instances\<close> for the calling thread, \<open>None\<close> when the thread has no context.
\<close>

definition current :: "ContextManager option \<Rightarrow> bool \<Rightarrow> error + ContextManager option" where
  "current instance noneOnLookupFailure =
     (if noneOnLookupFailure then Inr instance
      else (case instance of None \<Rightarrow> Inl KeyError | Some c \<Rightarrow> Inr (Some c)))"

text \<open>The receiver of \<^verbatim>\<open>pre_delete\<close>.\<close>

definition onPreDeleteSignal :: "ContextManager option \<Rightarrow> entity \<Rightarrow> ContextManager option" where
  "onPreDeleteSignal instance obj =
     (case current instance True of
        Inr (Some context) \<Rightarrow> Some (ejectFromRegistry context obj)
      | _ \<Rightarrow> instance)"

section \<open>The persistence layer's transaction interface\<close>

text \<open>
  \<^verbatim>\<open>django.db.transaction\<close> is outside the repository. Its state is kept as the
  stack of management flags and the sequence of calls made to it, in call order; a
  savepoint handle is the number the layer hands out. The calls are taken to succeed.
\<close>

datatype db_call =
    EnterTransactionManagement
  | Managed bool
  | LeaveTransactionManagement
  | Commit
  | Rollback
  | Savepoint savepoint
  | SavepointCommit "savepoint option"
  | SavepointRollback "savepoint option"
  | ExecuteSave queued_save

record transaction =
  state_stack :: "bool list"
  calls :: "db_call list"
  next_sid :: nat

definition is_managed :: "transaction \<Rightarrow> bool" where
  "is_managed t = (if state_stack t = [] then False else last (state_stack t))"

definition enter_transaction_management :: "transaction \<Rightarrow> transaction" where
  "enter_transaction_management t =
     t\<lparr>state_stack := state_stack t @ [is_managed t],
       calls := calls t @ [EnterTransactionManagement]\<rparr>"

definition managed :: "bool \<Rightarrow> transaction \<Rightarrow> transaction" where
  "managed flag t =
     t\<lparr>state_stack := (if state_stack t = [] then [] else butlast (state_stack t) @ [flag]),
       calls := calls t @ [Managed flag]\<rparr>"

definition leave_transaction_management :: "transaction \<Rightarrow> transaction" where
  "leave_transaction_management t =
     t\<lparr>state_stack := butlast (state_stack t),
       calls := calls t @ [LeaveTransactionManagement]\<rparr>"

definition commit :: "transaction \<Rightarrow> transaction" where
  "commit t = t\<lparr>calls := calls t @ [Commit]\<rparr>"

definition rollback :: "transaction \<Rightarrow> transaction" where
  "rollback t = t\<lparr>calls := calls t @ [Rollback]\<rparr>"

definition transaction_savepoint :: "transaction \<Rightarrow> savepoint \<times> transaction" where
  "transaction_savepoint t =
     (next_sid t, t\<lparr>calls := calls t @ [Savepoint (next_sid t)], next_sid := Suc (next_sid t)\<rparr>)"

definition savepoint_commit :: "savepoint option \<Rightarrow> transaction \<Rightarrow> transaction" where
  "savepoint_commit sp t = t\<lparr>calls := calls t @ [SavepointCommit sp]\<rparr>"

definition savepoint_rollback :: "savepoint option \<Rightarrow> transaction \<Rightarrow> transaction" where
  "savepoint_rollback sp t = t\<lparr>calls := calls t @ [SavepointRollback sp]\<rparr>"

section \<open>ContextManager: savepoints\<close>

text \<open>The context together with the transaction state of its thread.\<close>

record world =
  mgr :: ContextManager
  txn :: transaction

text \<open>
  Modelled from the spec: \<^verbatim>\<open>hasQueuedSaves\<close> is called by the savepoint methods
  and is not in the source. The spec has a queue of pending writes per context
  (\<open>queuedSaves\<close>); there are queued saves when it is not empty.
\<close>

definition hasQueuedSaves :: "world \<Rightarrow> bool" where
  "hasQueuedSaves w = (queuedSaves (mgr w) \<noteq> [])"

text \<open>
  Modelled from the spec: \<^verbatim>\<open>fireQueuedSaves\<close> is not in the source. Flushing
  executes every queued write, in queue order, and leaves the queue empty.
\<close>

definition fireQueuedSaves :: "world \<Rightarrow> world" where
  "fireQueuedSaves w =
     w\<lparr>mgr := (mgr w)\<lparr>queuedSaves := []\<rparr>,
       txn := (txn w)\<lparr>calls := calls (txn w) @ map ExecuteSave (queuedSaves (mgr w))\<rparr>\<rparr>"

text \<open>
  Modelled from the spec: \<^verbatim>\<open>abortAllQueuedSaves\<close> is not in the source. The
  queued writes are discarded and never executed.
\<close>

definition abortAllQueuedSaves :: "world \<Rightarrow> world" where
  "abortAllQueuedSaves w = w\<lparr>mgr := (mgr w)\<lparr>queuedSaves := []\<rparr>\<rparr>"

definition pushSavepoint :: "world \<Rightarrow> savepoint \<times> world" where
  "pushSavepoint w =
     (let w1 = (if hasQueuedSaves w then fireQueuedSaves w else w) in
      case transaction_savepoint (txn w1) of (sp, t) \<Rightarrow>
        (sp, w1\<lparr>mgr := (mgr w1)\<lparr>savepoints := savepoints (mgr w1) @ [sp]\<rparr>, txn := t\<rparr>))"

text \<open>
  The handle argument is what the caller passes, \<^verbatim>\<open>None\<close> included
  (\<^verbatim>\<open>SavepointContext.savepoint\<close> starts as \<^verbatim>\<open>None\<close>).
\<close>

definition commitSavepoint :: "world \<Rightarrow> savepoint option \<Rightarrow> (error + unit) \<times> world" where
  "commitSavepoint w sp =
     (let w1 = (if hasQueuedSaves w then fireQueuedSaves w else w) in
      if savepoints (mgr w1) \<noteq> [] \<and> sp = Some (last (savepoints (mgr w1)))
      then (Inr (), w1\<lparr>mgr := (mgr w1)\<lparr>savepoints := butlast (savepoints (mgr w1))\<rparr>,
                       txn := savepoint_commit sp (txn w1)\<rparr>)
      else (Inl ValueError, w1))"

definition rollbackSavepoint :: "world \<Rightarrow> savepoint option \<Rightarrow> (error + unit) \<times> world" where
  "rollbackSavepoint w sp =
     (let w1 = (if hasQueuedSaves w then abortAllQueuedSaves w else w) in
      if savepoints (mgr w1) \<noteq> [] \<and> sp = Some (last (savepoints (mgr w1)))
      then (Inr (), w1\<lparr>mgr := (mgr w1)\<lparr>savepoints := butlast (savepoints (mgr w1))\<rparr>,
                       txn := savepoint_rollback sp (txn w1)\<rparr>)
      else (Inl ValueError, w1))"

subsection \<open>The scoped block\<close>

record SavepointContext =
  sc_savepoint :: "savepoint option"
  managingTransaction :: bool

text \<open>\<^verbatim>\<open>ContextManager.savepoint\<close>: the constructor of \<^verbatim>\<open>SavepointContext\<close>.\<close>

definition savepoint :: "world \<Rightarrow> SavepointContext" where
  "savepoint w = \<lparr>sc_savepoint = None, managingTransaction = (\<not> is_managed (txn w))\<rparr>"

definition SavepointContext_enter :: "SavepointContext \<Rightarrow> world \<Rightarrow> SavepointContext \<times> world" where
  "SavepointContext_enter sc w =
     (let w1 = (if managingTransaction sc
                then w\<lparr>txn := managed True (enter_transaction_management (txn w))\<rparr>
                else w) in
      case pushSavepoint w1 of (sp, w2) \<Rightarrow> (sc\<lparr>sc_savepoint := Some sp\<rparr>, w2))"

text \<open>
  \<^verbatim>\<open>__exit__\<close>: \<open>exc\<close> is the exception of the block, \<open>None\<close> on normal exit. The
  \<^verbatim>\<open>finally\<close> clause runs after the \<^verbatim>\<open>try\<close> body whether it raised or not, and
  the exception of the body, if any, goes on. The method returns \<^verbatim>\<open>None\<close>.
\<close>

definition SavepointContext_exit ::
  "SavepointContext \<Rightarrow> error option \<Rightarrow> world \<Rightarrow> (error + unit) \<times> world"
where
  "SavepointContext_exit sc exc w =
     (case (if exc = None then
              (case commitSavepoint w (sc_savepoint sc) of
                 (Inl e, w1) \<Rightarrow> (Inl e, w1)
               | (Inr u, w1) \<Rightarrow>
                   (Inr u, if managingTransaction sc then w1\<lparr>txn := commit (txn w1)\<rparr> else w1))
            else
              (case rollbackSavepoint w (sc_savepoint sc) of
                 (Inl e, w1) \<Rightarrow> (Inl e, w1)
               | (Inr u, w1) \<Rightarrow>
                   (Inr u, if managingTransaction sc then w1\<lparr>txn := rollback (txn w1)\<rparr> else w1)))
      of (r, w2) \<Rightarrow>
        (r, if managingTransaction sc
            then w2\<lparr>txn := leave_transaction_management (txn w2)\<rparr>
            else w2))"

text \<open>
  \<^verbatim>\<open>with mgr.savepoint(): body\<close>. The body returns the exception it raised, if any.
  \<^verbatim>\<open>__exit__\<close> returns a false value, so the exception of the body propagates
  unless \<^verbatim>\<open>__exit__\<close> itself raises, whose exception then replaces it.
\<close>

definition with_savepoint :: "(world \<Rightarrow> error option \<times> world) \<Rightarrow> world \<Rightarrow> (error + unit) \<times> world" where
  "with_savepoint body w =
     (case SavepointContext_enter (savepoint w) w of (sc, w1) \<Rightarrow>
       (case body w1 of (exc, w2) \<Rightarrow>
          (case SavepointContext_exit sc exc w2 of
             (Inl e, w3) \<Rightarrow> (Inl e, w3)
           | (Inr u, w3) \<Rightarrow>
               (case exc of None \<Rightarrow> (Inr u, w3) | Some e \<Rightarrow> (Inl e, w3)))))"

section \<open>ContextAwareManager\<close>

text \<open>
  What the code reads of a model class and its \<^verbatim>\<open>_meta\<close>: the class name, the
  primary-key field (if any), the parents with the field that links to each, and the
  fields. A field's \<open>rel\<close> is \<open>None\<close> for a field that is not a relation.
\<close>

datatype rel = Rel (multiple: bool) (parent_link: bool)

datatype modelfield = ModelField (field_name: string) (field_rel: "rel option")

datatype model =
  Model (model_name: string) (meta_pk: "modelfield option")
        (meta_parents: "(model \<times> modelfield) list") (meta_fields: "modelfield list")

record Manager =
  manager_model :: model
  pkAttNames :: "string set"
  parentEntityClasses :: "model list"
  oneToOneAttNames :: "(string \<times> modelfield) list"

text \<open>
  The \<^verbatim>\<open>while queue\<close> loop of \<^verbatim>\<open>contribute_to_class\<close>: the queue, the names
  collected so far, the classes appended so far and the last class taken from the queue.
\<close>

function parents_loop ::
  "(model \<times> modelfield) list \<Rightarrow> string set \<Rightarrow> model list \<Rightarrow> model option
     \<Rightarrow> string set \<times> model list \<times> model option"
where
  "parents_loop [] names classes parentClass = (names, classes, parentClass)"
| "parents_loop ((p, toParentField) # queue) names classes parentClass =
     parents_loop (queue @ meta_parents p)
       (insert (field_name toParentField @ ''__pk'') names) (classes @ [p]) (Some p)"
  by pat_completeness auto

definition queue_size :: "(model \<times> modelfield) list \<Rightarrow> nat" where
  "queue_size q = sum_list (map (\<lambda>(m, f). size m) q)"

termination parents_loop
proof (relation "measure (\<lambda>(q, n, c, l). queue_size q)")
  show "wf (measure (\<lambda>(q, n, c, l). queue_size q))"
    by simp
next
  fix p :: model and toParentField :: modelfield
    and queue :: "(model \<times> modelfield) list"
    and names :: "string set" and classes :: "model list" and parentClass :: "model option"
  have le: "queue_size q \<le> size_list (size_prod size (\<lambda>x. 0)) q" for q
    by (induction q) (auto simp: queue_size_def)
  have "queue_size (meta_parents p) < size p"
    using le [of "meta_parents p"] by (cases p) simp
  then have "queue_size (queue @ meta_parents p) < queue_size ((p, toParentField) # queue)"
    by (simp add: queue_size_def)
  then show "((queue @ meta_parents p, insert (field_name toParentField @ ''__pk'') names,
               classes @ [p], Some p),
              ((p, toParentField) # queue, names, classes, parentClass))
             \<in> measure (\<lambda>(q, n, c, l). queue_size q)"
    by simp
qed

text \<open>
  \<^verbatim>\<open>contribute_to_class\<close>. Reading \<^verbatim>\<open>.name\<close> of the last parent's primary key
  raises when that class has none; for the model's own key the code asks
  \<^verbatim>\<open>hasattr\<close> first. The dictionary of one-to-one names is built from pairs, a
  later pair replacing an earlier one with the same key.
\<close>

definition contribute_to_class :: "model \<Rightarrow> error + Manager" where
  "contribute_to_class m =
     (case parents_loop (meta_parents m) {''pk''} [] None of
        (names, classes, parentClass) \<Rightarrow>
          (case (case parentClass of
                   None \<Rightarrow> Inr names
                 | Some p \<Rightarrow>
                     (case meta_pk p of
                        None \<Rightarrow> Inl AttributeError
                      | Some f \<Rightarrow> Inr (insert (field_name f) names)))
           of Inl e \<Rightarrow> Inl e
            | Inr names1 \<Rightarrow>
                Inr \<lparr>manager_model = m,
                     pkAttNames =
                       (case meta_pk m of
                          None \<Rightarrow> names1
                        | Some f \<Rightarrow> insert (field_name f) names1),
                     parentEntityClasses = rev classes,
                     oneToOneAttNames =
                       rev (map (\<lambda>f. (field_name f @ ''__pk'', f))
                              (filter (\<lambda>f. case field_rel f of
                                               None \<Rightarrow> False
                                             | Some r \<Rightarrow> \<not> multiple r \<and> \<not> parent_link r)
                                      (meta_fields m)))\<rparr>))"

text \<open>The key of the single keyword argument with a trailing \<^verbatim>\<open>__exact\<close> removed.\<close>

definition strip_exact :: "string \<Rightarrow> string" where
  "strip_exact k =
     (if suffix ''__exact'' k then take (length k - length ''__exact'') k else k)"

text \<open>
  The query path of the base manager, \<^verbatim>\<open>super( ContextAwareManager, self ).get\<close>,
  is outside the repository: it is a parameter, run against the context of the
  thread (which the auto-registering query set may change) and returning the instance or
  raising.
\<close>

type_synonym query = "ContextManager option \<Rightarrow> (error + entity option) \<times> ContextManager option"

text \<open>
  \<^verbatim>\<open>lambda: super( ContextAwareManager, self ).get( *args, **kw )\<close>, as
  \<^verbatim>\<open>regdLookup\<close> calls it on the context it belongs to.
\<close>

definition fetch_in_context :: "query \<Rightarrow> fetchFunc" where
  "fetch_in_context q c =
     (case q (Some c) of (r, c') \<Rightarrow> (r, case c' of None \<Rightarrow> c | Some c1 \<Rightarrow> c1))"

text \<open>
  \<^verbatim>\<open>ContextAwareManager.get\<close>. \<open>args\<close> are the positional arguments (\<^verbatim>\<open>Q\<close>
  objects), \<open>kw\<close> the keyword arguments in some order, one pair per keyword.
\<close>

definition get ::
  "Manager \<Rightarrow> ('q list \<Rightarrow> (string \<times> pyval) list \<Rightarrow> query) \<Rightarrow> ContextManager option
     \<Rightarrow> 'q list \<Rightarrow> (string \<times> pyval) list \<Rightarrow> (error + entity option) \<times> ContextManager option"
where
  "get self super_get instance args kw =
     (case current instance True of
        Inl e \<Rightarrow> (Inl e, instance)
      | Inr None \<Rightarrow> super_get args kw instance
      | Inr (Some context) \<Rightarrow>
          (case kw of
             [(k0, v)] \<Rightarrow>
               (let k = strip_exact k0;
                    isPK = (is_uuid v \<and> k \<in> pkAttNames self)
                in
                if isPK then
                  (case regdLookup context (model_name (manager_model self)) v
                          (Some (fetch_in_context (super_get args kw)))
                   of (r, c') \<Rightarrow> (r, Some c'))
                else
                  (case map_of (oneToOneAttNames self) k of
                     Some f \<Rightarrow>
                       (case find (\<lambda>(p, obj). getattr obj (field_name f @ ''_id'') = v)
                               (registeredEntities context (model_name (manager_model self)))
                        of Some (p, obj) \<Rightarrow> (Inr (Some obj), instance)
                         | None \<Rightarrow> super_get args kw instance)
                   | None \<Rightarrow> super_get args kw instance))
           | _ \<Rightarrow> super_get args kw instance))"

section \<open>RegisteringQuerySet and ContextAwareModelBase\<close>

text \<open>
  \<^verbatim>\<open>RegisteringQuerySet.iterator\<close>, consumed to its end: \<open>context\<close> is the context
  the query set holds, the list is what the base iterator yields.
\<close>

fun iterator :: "ContextManager option \<Rightarrow> entity list \<Rightarrow> entity option list \<times> ContextManager option" where
  "iterator context [] = ([], context)"
| "iterator context (result # rest) =
     (case context of
        Some c \<Rightarrow>
          (case regd c (Some result) of (r, c') \<Rightarrow>
             (case iterator (Some c') rest of (rs, c'') \<Rightarrow> (r # rs, c'')))
      | None \<Rightarrow>
          (case iterator None rest of (rs, c'') \<Rightarrow> (Some result # rs, c'')))"

text \<open>
  \<^verbatim>\<open>ContextAwareModelBase.__call__\<close>: \<open>newborn\<close> is the instance the base metaclass
  made. Without a context \<^verbatim>\<open>current()\<close> raises \<^verbatim>\<open>KeyError\<close> and the newborn is
  returned.
\<close>

definition ContextAwareModelBase_call ::
  "ContextManager option \<Rightarrow> entity \<Rightarrow> entity option \<times> ContextManager option"
where
  "ContextAwareModelBase_call instance newborn =
     (case current instance False of
        Inr (Some context) \<Rightarrow>
          (case regd context (Some newborn) of (cached, c') \<Rightarrow> (cached, Some c'))
      | _ \<Rightarrow> (Some newborn, instance))"

section \<open>Parent entities\<close>

text \<open>
  Modelled from the spec: \<^verbatim>\<open>fetchEntities\<close> (and \<^verbatim>\<open>modelClass\<close>, which resolves
  the type to its class) are called by \<^verbatim>\<open>registerParentEntities\<close> and are not in the
  source. The spec has the persistence layer return, for a type and a set of primary
  keys, the rows of that type whose key is in the set. \<open>rows\<close> are the instances the
  layer makes for the rows it holds.
\<close>

definition fetchEntities :: "entity list \<Rightarrow> model \<Rightarrow> pyval list \<Rightarrow> entity list" where
  "fetchEntities rows parentClass pks =
     filter (\<lambda>r. cls r = model_name parentClass \<and> pk r \<in> set pks) rows"

text \<open>The inner loop of \<^verbatim>\<open>registerParentEntities\<close>: register each fetched row.\<close>

fun register_each :: "ContextManager \<Rightarrow> entity list \<Rightarrow> ContextManager" where
  "register_each c [] = c"
| "register_each c (parentDupe # rest) = register_each (snd (regd c (Some parentDupe))) rest"

text \<open>The outer loop, over the parent classes.\<close>

fun register_parents :: "ContextManager \<Rightarrow> entity list \<Rightarrow> model list \<Rightarrow> pyval list \<Rightarrow> ContextManager" where
  "register_parents c rows [] pks = c"
| "register_parents c rows (parentClass # rest) pks =
     register_parents (register_each c (fetchEntities rows parentClass pks)) rows rest pks"

text \<open>
  \<^verbatim>\<open>registerParentEntities\<close>; \<open>objects\<close> is the manager of the class that
  \<^verbatim>\<open>modelClass( entityType )\<close> resolves to.
\<close>

definition registerParentEntities ::
  "ContextManager \<Rightarrow> entity list \<Rightarrow> Manager \<Rightarrow> entity list \<Rightarrow> ContextManager"
where
  "registerParentEntities c rows objects entities =
     (let pks = map pk entities in
      register_parents c rows (parentEntityClasses objects) pks)"

section \<open>Notions used in the statements\<close>

text \<open>
  A handle is the top of the stack when the stack is not empty and its last element is
  the handle.
\<close>

definition is_top :: "world \<Rightarrow> savepoint option \<Rightarrow> bool" where
  "is_top w h = (savepoints (mgr w) \<noteq> [] \<and> h = Some (last (savepoints (mgr w))))"

text \<open>The calls made to the persistence layer between two states.\<close>

definition new_calls :: "world \<Rightarrow> world \<Rightarrow> db_call list" where
  "new_calls w w' = drop (length (calls (txn w))) (calls (txn w'))"

text \<open>A context with nothing registered, no savepoint and no queued write.\<close>

definition world0 :: world where
  "world0 = \<lparr>mgr = \<lparr>pkRegistry = [], savepoints = [], queuedSaves = []\<rparr>,
             txn = \<lparr>state_stack = [], calls = [], next_sid = 1\<rparr>\<rparr>"

text \<open>The same after three savepoints were pushed, with two writes queued since.\<close>

definition world3 :: world where
  "world3 = \<lparr>mgr = \<lparr>pkRegistry = [], savepoints = [1, 2, 3], queuedSaves = [7, 8]\<rparr>,
             txn = \<lparr>state_stack = [], calls = [Savepoint 1, Savepoint 2, Savepoint 3],
                    next_sid = 4\<rparr>\<rparr>"

text \<open>Blocks for the scoped savepoint: one that returns, one that raises, and one
  that pushes a savepoint of its own, leaves it open and raises.\<close>

definition body_ok :: "world \<Rightarrow> error option \<times> world" where
  "body_ok w = (None, w)"

definition body_raises :: "world \<Rightarrow> error option \<times> world" where
  "body_raises w = (Some (UserError 7), w)"

definition body_leaks :: "world \<Rightarrow> error option \<times> world" where
  "body_leaks w = (Some (UserError 7), snd (pushSavepoint w))"

text \<open>
  Two instances of the same row of \<^verbatim>\<open>Order\<close>, a context in which the first is
  registered, and an instance with key \<open>0\<close> of a class without \<^verbatim>\<open>canBeRegd\<close>.
\<close>

definition order1 :: entity where
  "order1 = \<lparr>oid = 1, cls = ''Order'', pk = PyInt 42, hook = ModelHook, attrs = []\<rparr>"

definition order2 :: entity where
  "order2 = \<lparr>oid = 2, cls = ''Order'', pk = PyInt 42, hook = ModelHook, attrs = []\<rparr>"

definition ctx_order :: ContextManager where
  "ctx_order = \<lparr>pkRegistry = [((''Order'', PyInt 42), order1)], savepoints = [],
                 queuedSaves = []\<rparr>"

definition user0 :: entity where
  "user0 = \<lparr>oid = 1, cls = ''User'', pk = PyInt 0, hook = NoHook, attrs = []\<rparr>"

text \<open>
  Eligibility for registration, in the spec's words: the entity is not null and its
  policy hook accepts it or, for a type without a hook, its primary key is not null.
\<close>

definition eligible :: "entity option \<Rightarrow> bool" where
  "eligible x = (case x of
      None \<Rightarrow> False
    | Some e \<Rightarrow> (case canBeRegd e of Some b \<Rightarrow> b | None \<Rightarrow> pk e \<noteq> PyNone))"

text \<open>
  The entities that claim C2 is about: no policy hook, and a primary key that is not
  null and counts as false (\<open>0\<close>, the empty string). The statements below say
  nothing about them.
\<close>

definition falsy_key :: "entity option \<Rightarrow> bool" where
  "falsy_key x = (case x of
      None \<Rightarrow> False
    | Some e \<Rightarrow> canBeRegd e = None \<and> pk e \<noteq> PyNone \<and> \<not> truthy (pk e))"

text \<open>Eligible, and not one of those.\<close>

definition accepted :: "entity option \<Rightarrow> bool" where
  "accepted x = (eligible x \<and> \<not> falsy_key x)"

text \<open>The key (type name, primary key) of an entity, if it is not null.\<close>

definition key_of :: "entity option \<Rightarrow> regkey option" where
  "key_of x = map_option regkey_of x"

text \<open>
  The three paths by which an instance reaches the caller through the registry: a
  direct call of \<^verbatim>\<open>regd\<close>, the iterator of a registering query set over the rows
  it loads, and the construction of an instance. \<open>given\<close> lists the instances a
  path hands to the registry; a path yields the pairs of the instance given and the
  instance handed back.
\<close>

datatype fetch = Direct "entity option" | Query "entity list" | Construct entity

fun given :: "fetch \<Rightarrow> entity option list" where
  "given (Direct x) = [x]"
| "given (Query results) = map Some results"
| "given (Construct newborn) = [Some newborn]"

fun fetch_path ::
  "ContextManager \<Rightarrow> fetch \<Rightarrow> (entity option \<times> entity option) list \<times> ContextManager" where
  "fetch_path c (Direct x) = (case regd c x of (r, c') \<Rightarrow> ([(x, r)], c'))"
| "fetch_path c (Query results) =
     (case iterator (Some c) results of
        (rs, c') \<Rightarrow> (zip (map Some results) rs, case c' of None \<Rightarrow> c | Some c1 \<Rightarrow> c1))"
| "fetch_path c (Construct newborn) =
     (case ContextAwareModelBase_call (Some c) newborn of
        (r, c') \<Rightarrow> ([(Some newborn, r)], case c' of None \<Rightarrow> c | Some c1 \<Rightarrow> c1))"

fun fetches ::
  "ContextManager \<Rightarrow> fetch list \<Rightarrow> (entity option \<times> entity option) list \<times> ContextManager" where
  "fetches c [] = ([], c)"
| "fetches c (f # fs) =
     (case fetch_path c f of (io, c') \<Rightarrow>
        (case fetches c' fs of (ios, c'') \<Rightarrow> (io @ ios, c'')))"

text \<open>The first accepted instance with key \<open>k\<close> among the instances given.\<close>

definition first_accepted :: "regkey \<Rightarrow> entity option list \<Rightarrow> entity option" where
  "first_accepted k xs =
     (case find (\<lambda>x. accepted x \<and> key_of x = Some k) xs of None \<Rightarrow> None | Some x \<Rightarrow> x)"

text \<open>
  An instance of the order's row whose class overrides \<^verbatim>\<open>canBeRegd\<close> and answers
  false for it.
\<close>

definition order2_unsafe :: entity where
  "order2_unsafe = \<lparr>oid = 2, cls = ''Order'', pk = PyInt 42, hook = Overridden False, attrs = []\<rparr>"

text \<open>\<^verbatim>\<open>hasattr( obj, name )\<close>\<close>

definition hasattr :: "entity \<Rightarrow> string \<Rightarrow> bool" where
  "hasattr obj name = (map_of (attrs obj) name \<noteq> None)"

text \<open>
  Instances of the order's row as a fetch makes them, with the attribute
  \<^verbatim>\<open>entityType\<close>: one of a class with the inherited policy hook, one of a class
  whose hook answers false. Fetch functions that return them, one that returns
  \<^verbatim>\<open>None\<close>, and one that raises the persistence layer's row-not-found error.
\<close>

definition fetched_order :: entity where
  "fetched_order = \<lparr>oid = 3, cls = ''Order'', pk = PyInt 42, hook = ModelHook,
                     attrs = [(''entityType'', PyStr ''Order'')]\<rparr>"

definition fetched_unsafe :: entity where
  "fetched_unsafe = \<lparr>oid = 4, cls = ''Order'', pk = PyInt 42, hook = Overridden False,
                      attrs = [(''entityType'', PyStr ''Order'')]\<rparr>"

definition fetch_order :: fetchFunc where
  "fetch_order c = (Inr (Some fetched_order), c)"

definition fetch_unsafe :: fetchFunc where
  "fetch_unsafe c = (Inr (Some fetched_unsafe), c)"

definition fetch_nothing :: fetchFunc where
  "fetch_nothing c = (Inr None, c)"

definition fetch_missing :: fetchFunc where
  "fetch_missing c = (Inl ObjectDoesNotExist, c)"

text \<open>
  A later fetch of the same table: every instance it makes stands for a row the earlier
  fetch had an instance of, with the same class name and key, and is accepted only if
  that one was.
\<close>

definition refetch_of :: "entity list \<Rightarrow> entity list \<Rightarrow> bool" where
  "refetch_of rows rows2 =
     (\<forall>r2 \<in> set rows2. \<exists>r \<in> set rows.
        regkey_of r = regkey_of r2 \<and> (accepted (Some r2) \<longrightarrow> accepted (Some r)))"

text \<open>
  The ancestor rows that \<^verbatim>\<open>registerParentEntities\<close> fetches, in the order in which
  it passes them to \<^verbatim>\<open>regd\<close>.
\<close>

definition fetched_parents :: "entity list \<Rightarrow> Manager \<Rightarrow> entity list \<Rightarrow> entity list" where
  "fetched_parents rows objects entities =
     concat (map (\<lambda>parentClass. fetchEntities rows parentClass (map pk entities))
               (parentEntityClasses objects))"

text \<open>
  A chain of single inheritance: \<open>ps\<close> are the ancestors of \<open>m\<close>, from its parent
  up to the most-base class, each the only parent of the one before.
\<close>

fun is_chain :: "model \<Rightarrow> model list \<Rightarrow> bool" where
  "is_chain m [] = (meta_parents m = [])"
| "is_chain m (p # ps) = (map fst (meta_parents m) = [p] \<and> is_chain p ps)"

text \<open>
  \<^verbatim>\<open>Invoice\<close> under \<^verbatim>\<open>Document\<close> under \<^verbatim>\<open>Asset\<close>, the manager that
  \<^verbatim>\<open>contribute_to_class\<close> computes for \<^verbatim>\<open>Invoice\<close>, an invoice, the parent rows
  as the persistence layer instantiates them (object identities from \<open>n\<close> on), and an
  asset row of a class whose policy hook answers false.
\<close>

definition asset_model :: model where
  "asset_model = Model ''Asset'' (Some (ModelField ''id'' None)) [] [ModelField ''id'' None]"

definition document_model :: model where
  "document_model =
     Model ''Document'' (Some (ModelField ''asset_ptr'' (Some (Rel False True))))
       [(asset_model, ModelField ''asset_ptr'' (Some (Rel False True)))]
       [ModelField ''asset_ptr'' (Some (Rel False True)),
        ModelField ''cover'' (Some (Rel False False))]"

definition invoice_model :: model where
  "invoice_model =
     Model ''Invoice'' (Some (ModelField ''document_ptr'' (Some (Rel False True))))
       [(document_model, ModelField ''document_ptr'' (Some (Rel False True)))]
       [ModelField ''document_ptr'' (Some (Rel False True)),
        ModelField ''customer'' (Some (Rel True False)),
        ModelField ''receipt'' (Some (Rel False False)),
        ModelField ''total'' None]"

definition invoice_objects :: Manager where
  "invoice_objects =
     \<lparr>manager_model = invoice_model,
      pkAttNames = {''document_ptr'', ''id'', ''asset_ptr__pk'', ''document_ptr__pk'', ''pk''},
      parentEntityClasses = [asset_model, document_model],
      oneToOneAttNames = [(''receipt__pk'', ModelField ''receipt'' (Some (Rel False False)))]\<rparr>"

definition invoice1 :: entity where
  "invoice1 = \<lparr>oid = 5, cls = ''Invoice'', pk = PyInt 42, hook = ModelHook, attrs = []\<rparr>"

definition parent_rows :: "nat \<Rightarrow> entity list" where
  "parent_rows n =
     [\<lparr>oid = n, cls = ''Asset'', pk = PyInt 42, hook = ModelHook, attrs = []\<rparr>,
      \<lparr>oid = n + 1, cls = ''Document'', pk = PyInt 42, hook = ModelHook, attrs = []\<rparr>,
      \<lparr>oid = n + 2, cls = ''Asset'', pk = PyInt 43, hook = ModelHook, attrs = []\<rparr>]"


definition asset_declined :: entity where
  "asset_declined = \<lparr>oid = 40, cls = ''Asset'', pk = PyInt 42, hook = Overridden False,
                      attrs = []\<rparr>"

text \<open>
  A registered invoice with total 3, and the instance the persistence layer makes of
  the same row.
\<close>

definition invoice_a :: entity where
  "invoice_a = \<lparr>oid = 30, cls = ''Invoice'', pk = PyUUID 7, hook = ModelHook,
                 attrs = [(''total'', PyInt 3)]\<rparr>"

definition invoice_row :: entity where
  "invoice_row = \<lparr>oid = 31, cls = ''Invoice'', pk = PyUUID 7, hook = ModelHook,
                   attrs = [(''total'', PyInt 3)]\<rparr>"

definition ctx_invoice :: ContextManager where
  "ctx_invoice = \<lparr>pkRegistry = [((''Invoice'', PyUUID 7), invoice_a)], savepoints = [],
                   queuedSaves = []\<rparr>"

text \<open>
  A query path over a table, to run \<^verbatim>\<open>get\<close> against: it applies every positional
  criterion (a predicate on the row) and every keyword criterion (\<^verbatim>\<open>pk\<close> or an
  attribute name, with the value it must have), and returns the one row that satisfies
  them, or raises.
\<close>

definition field_value :: "entity \<Rightarrow> string \<Rightarrow> pyval" where
  "field_value r k = (if k = ''pk'' then pk r else getattr r k)"

definition table_get ::
  "entity list \<Rightarrow> (entity \<Rightarrow> bool) list \<Rightarrow> (string \<times> pyval) list \<Rightarrow> query" where
  "table_get table args kw context =
     (case filter (\<lambda>r. list_all (\<lambda>q. q r) args \<and> list_all (\<lambda>(k, v). field_value r k = v) kw)
             table of
        [] \<Rightarrow> (Inl ObjectDoesNotExist, context)
      | [r] \<Rightarrow> (Inr (Some r), context)
      | _ \<Rightarrow> (Inl MultipleObjectsReturned, context))"

text \<open>The positional criterion \<^verbatim>\<open>Q( total = 5 )\<close>.\<close>

definition total_is_5 :: "entity \<Rightarrow> bool" where
  "total_is_5 r = (getattr r ''total'' = PyInt 5)"

section \<open>Savepoints\<close>

lemma commitSavepoint_top:
  "is_top w h \<Longrightarrow> commitSavepoint w h =
     (Inr (), w\<lparr>mgr := (mgr w)\<lparr>queuedSaves := [], savepoints := butlast (savepoints (mgr w))\<rparr>,
               txn := (txn w)\<lparr>calls := calls (txn w) @ map ExecuteSave (queuedSaves (mgr w)) @ [SavepointCommit h]\<rparr>\<rparr>)"
  by (cases w) (auto simp: is_top_def commitSavepoint_def hasQueuedSaves_def fireQueuedSaves_def savepoint_commit_def Let_def)

lemma commitSavepoint_not_top:
  "\<not> is_top w h \<Longrightarrow> commitSavepoint w h =
     (Inl ValueError, w\<lparr>mgr := (mgr w)\<lparr>queuedSaves := []\<rparr>,
               txn := (txn w)\<lparr>calls := calls (txn w) @ map ExecuteSave (queuedSaves (mgr w))\<rparr>\<rparr>)"
  by (cases w) (auto simp: is_top_def commitSavepoint_def hasQueuedSaves_def fireQueuedSaves_def savepoint_commit_def Let_def)

lemma rollbackSavepoint_top:
  "is_top w h \<Longrightarrow> rollbackSavepoint w h =
     (Inr (), w\<lparr>mgr := (mgr w)\<lparr>queuedSaves := [], savepoints := butlast (savepoints (mgr w))\<rparr>,
               txn := (txn w)\<lparr>calls := calls (txn w) @ [SavepointRollback h]\<rparr>\<rparr>)"
  by (cases w) (auto simp: is_top_def rollbackSavepoint_def hasQueuedSaves_def abortAllQueuedSaves_def savepoint_rollback_def Let_def)

lemma rollbackSavepoint_not_top:
  "\<not> is_top w h \<Longrightarrow> rollbackSavepoint w h =
     (Inl ValueError, w\<lparr>mgr := (mgr w)\<lparr>queuedSaves := []\<rparr>\<rparr>)"
  by (cases w) (auto simp: is_top_def rollbackSavepoint_def hasQueuedSaves_def abortAllQueuedSaves_def savepoint_rollback_def Let_def)

lemma pushSavepoint_eq:
  "pushSavepoint w =
     (next_sid (txn w),
      w\<lparr>mgr := (mgr w)\<lparr>queuedSaves := [], savepoints := savepoints (mgr w) @ [next_sid (txn w)]\<rparr>,
        txn := (txn w)\<lparr>calls := calls (txn w) @ map ExecuteSave (queuedSaves (mgr w)) @ [Savepoint (next_sid (txn w))],
                       next_sid := Suc (next_sid (txn w))\<rparr>\<rparr>)"
  by (cases w) (auto simp: pushSavepoint_def hasQueuedSaves_def fireQueuedSaves_def transaction_savepoint_def Let_def)

text \<open>
  Claim C3. \<^verbatim>\<open>commitSavepoint\<close> and \<^verbatim>\<open>rollbackSavepoint\<close> raise
  \<^verbatim>\<open>ValueError\<close> (the spec's StackDiscipline error) whenever the handle is not the
  top of the savepoint stack. When it is the top they call the persistence layer's
  \<^verbatim>\<open>savepoint_commit\<close> (respectively \<^verbatim>\<open>savepoint_rollback\<close>) on it and pop
  the stack. With three savepoints pushed in a row, committing the second or rolling
  back the first fails while the third is the top, and committing the third succeeds
  and leaves the second as the top.
\<close>

theorem savepoint_stack_discipline:
  "(\<not> is_top w h \<longrightarrow>
      fst (commitSavepoint w h) = Inl ValueError \<and> fst (rollbackSavepoint w h) = Inl ValueError)
   \<and> (is_top w h \<longrightarrow>
      fst (commitSavepoint w h) = Inr ()
      \<and> calls (txn (snd (commitSavepoint w h)))
          = calls (txn w) @ map ExecuteSave (queuedSaves (mgr w)) @ [SavepointCommit h]
      \<and> savepoints (mgr (snd (commitSavepoint w h))) = butlast (savepoints (mgr w))
      \<and> fst (rollbackSavepoint w h) = Inr ()
      \<and> calls (txn (snd (rollbackSavepoint w h))) = calls (txn w) @ [SavepointRollback h]
      \<and> savepoints (mgr (snd (rollbackSavepoint w h))) = butlast (savepoints (mgr w)))
   \<and> (let (s1, w1) = pushSavepoint w; (s2, w2) = pushSavepoint w1; (s3, w3) = pushSavepoint w2
      in is_top w3 (Some s3)
         \<and> fst (commitSavepoint w3 (Some s2)) = Inl ValueError
         \<and> fst (rollbackSavepoint w3 (Some s1)) = Inl ValueError
         \<and> fst (commitSavepoint w3 (Some s3)) = Inr ()
         \<and> savepoints (mgr (snd (commitSavepoint w3 (Some s3)))) = savepoints (mgr w) @ [s1, s2]
         \<and> is_top (snd (commitSavepoint w3 (Some s3))) (Some s2))"
proof (intro conjI impI)
  assume n: "\<not> is_top w h"
  show "fst (commitSavepoint w h) = Inl ValueError"
    by (simp add: commitSavepoint_not_top [OF n])
  show "fst (rollbackSavepoint w h) = Inl ValueError"
    by (simp add: rollbackSavepoint_not_top [OF n])
next
  assume t: "is_top w h"
  show "fst (commitSavepoint w h) = Inr ()"
    by (simp add: commitSavepoint_top [OF t])
  show "calls (txn (snd (commitSavepoint w h)))
          = calls (txn w) @ map ExecuteSave (queuedSaves (mgr w)) @ [SavepointCommit h]"
    by (simp add: commitSavepoint_top [OF t] new_calls_def)
  show "savepoints (mgr (snd (commitSavepoint w h))) = butlast (savepoints (mgr w))"
    by (simp add: commitSavepoint_top [OF t])
  show "fst (rollbackSavepoint w h) = Inr ()"
    by (simp add: rollbackSavepoint_top [OF t])
  show "calls (txn (snd (rollbackSavepoint w h))) = calls (txn w) @ [SavepointRollback h]"
    by (simp add: rollbackSavepoint_top [OF t] new_calls_def)
  show "savepoints (mgr (snd (rollbackSavepoint w h))) = butlast (savepoints (mgr w))"
    by (simp add: rollbackSavepoint_top [OF t])
next
  define n where "n = next_sid (txn w)"
  define w1 where "w1 = snd (pushSavepoint w)"
  define w2 where "w2 = snd (pushSavepoint w1)"
  define w3 where "w3 = snd (pushSavepoint w2)"
  have f1: "fst (pushSavepoint w) = n"
    by (simp add: n_def pushSavepoint_eq)
  have f2: "fst (pushSavepoint w1) = Suc n"
    by (simp add: n_def w1_def pushSavepoint_eq)
  have f3: "fst (pushSavepoint w2) = Suc (Suc n)"
    by (simp add: n_def w1_def w2_def pushSavepoint_eq)
  have eqs: "pushSavepoint w = (n, w1)" "pushSavepoint w1 = (Suc n, w2)"
    "pushSavepoint w2 = (Suc (Suc n), w3)"
    using f1 f2 f3 by (simp_all add: w1_def w2_def w3_def prod_eq_iff)
  have sp: "savepoints (mgr w3) = savepoints (mgr w) @ [n, Suc n, Suc (Suc n)]"
    by (simp add: w3_def w2_def w1_def n_def pushSavepoint_eq)
  have t3: "is_top w3 (Some (Suc (Suc n)))"
    by (simp add: is_top_def sp)
  have n2: "\<not> is_top w3 (Some (Suc n))" and n1: "\<not> is_top w3 (Some n)"
    by (simp_all add: is_top_def sp)
  have "is_top w3 (Some (Suc (Suc n)))
         \<and> fst (commitSavepoint w3 (Some (Suc n))) = Inl ValueError
         \<and> fst (rollbackSavepoint w3 (Some n)) = Inl ValueError
         \<and> fst (commitSavepoint w3 (Some (Suc (Suc n)))) = Inr ()
         \<and> savepoints (mgr (snd (commitSavepoint w3 (Some (Suc (Suc n)))))) = savepoints (mgr w) @ [n, Suc n]
         \<and> is_top (snd (commitSavepoint w3 (Some (Suc (Suc n))))) (Some (Suc n))"
    using t3 by (simp add: commitSavepoint_not_top [OF n2] rollbackSavepoint_not_top [OF n1]
        commitSavepoint_top [OF t3] sp is_top_def butlast_append)
  then show "let (s1, w1) = pushSavepoint w; (s2, w2) = pushSavepoint w1; (s3, w3) = pushSavepoint w2
      in is_top w3 (Some s3)
         \<and> fst (commitSavepoint w3 (Some s2)) = Inl ValueError
         \<and> fst (rollbackSavepoint w3 (Some s1)) = Inl ValueError
         \<and> fst (commitSavepoint w3 (Some s3)) = Inr ()
         \<and> savepoints (mgr (snd (commitSavepoint w3 (Some s3)))) = savepoints (mgr w) @ [s1, s2]
         \<and> is_top (snd (commitSavepoint w3 (Some s3))) (Some s2)"
    by (simp only: eqs Let_def prod.case)
qed

theorem savepoint_stack_discipline_witness:
  "\<not> is_top world3 (Some 2)
   \<and> fst (commitSavepoint world3 (Some 2)) = Inl ValueError
   \<and> fst (rollbackSavepoint world3 (Some 2)) = Inl ValueError
   \<and> is_top world3 (Some 3)
   \<and> fst (commitSavepoint world3 (Some 3)) = Inr ()
   \<and> calls (txn (snd (commitSavepoint world3 (Some 3))))
        = calls (txn world3) @ [ExecuteSave 7, ExecuteSave 8, SavepointCommit (Some 3)]
   \<and> savepoints (mgr (snd (commitSavepoint world3 (Some 3)))) = [1, 2]
   \<and> calls (txn (snd (rollbackSavepoint world3 (Some 3)))) = calls (txn world3) @ [SavepointRollback (Some 3)]
   \<and> savepoints (mgr (snd (rollbackSavepoint world3 (Some 3)))) = [1, 2]"
proof -
  have n: "\<not> is_top world3 (Some 2)" and t: "is_top world3 (Some 3)"
    by (simp_all add: is_top_def world3_def)
  show ?thesis
    using n t savepoint_stack_discipline [of world3 "Some 2"]
      savepoint_stack_discipline [of world3 "Some 3"]
    by (simp add: world3_def)
qed

text \<open>
  Claim C10. When the handle fails the stack-discipline check, \<^verbatim>\<open>commitSavepoint\<close>
  and \<^verbatim>\<open>rollbackSavepoint\<close> raise without calling \<^verbatim>\<open>savepoint_commit\<close> or
  \<^verbatim>\<open>savepoint_rollback\<close>, and the savepoint stack is the one before the call. On
  an empty stack every handle fails the check.
\<close>

theorem failed_check_keeps_stack:
  "(\<not> is_top w h \<longrightarrow>
      fst (commitSavepoint w h) = Inl ValueError
      \<and> savepoints (mgr (snd (commitSavepoint w h))) = savepoints (mgr w)
      \<and> (\<forall>sp. SavepointCommit sp \<notin> set (new_calls w (snd (commitSavepoint w h)))
              \<and> SavepointRollback sp \<notin> set (new_calls w (snd (commitSavepoint w h))))
      \<and> fst (rollbackSavepoint w h) = Inl ValueError
      \<and> savepoints (mgr (snd (rollbackSavepoint w h))) = savepoints (mgr w)
      \<and> calls (txn (snd (rollbackSavepoint w h))) = calls (txn w))
   \<and> (savepoints (mgr w) = [] \<longrightarrow> \<not> is_top w h)"
proof (intro conjI impI allI)
  assume n: "\<not> is_top w h"
  show "fst (commitSavepoint w h) = Inl ValueError"
    by (simp add: commitSavepoint_not_top [OF n])
  show "savepoints (mgr (snd (commitSavepoint w h))) = savepoints (mgr w)"
    by (simp add: commitSavepoint_not_top [OF n])
  show "SavepointCommit sp \<notin> set (new_calls w (snd (commitSavepoint w h)))" for sp
    by (auto simp: commitSavepoint_not_top [OF n] new_calls_def)
  show "SavepointRollback sp \<notin> set (new_calls w (snd (commitSavepoint w h)))" for sp
    by (auto simp: commitSavepoint_not_top [OF n] new_calls_def)
  show "fst (rollbackSavepoint w h) = Inl ValueError"
    by (simp add: rollbackSavepoint_not_top [OF n])
  show "savepoints (mgr (snd (rollbackSavepoint w h))) = savepoints (mgr w)"
    by (simp add: rollbackSavepoint_not_top [OF n])
  show "calls (txn (snd (rollbackSavepoint w h))) = calls (txn w)"
    by (simp add: rollbackSavepoint_not_top [OF n] new_calls_def)
next
  assume "savepoints (mgr w) = []"
  then show "\<not> is_top w h"
    by (simp add: is_top_def)
qed

theorem failed_check_keeps_stack_witness:
  "\<not> is_top world3 (Some 2)
   \<and> fst (commitSavepoint world3 (Some 2)) = Inl ValueError
   \<and> savepoints (mgr (snd (commitSavepoint world3 (Some 2)))) = [1, 2, 3]
   \<and> calls (txn (snd (commitSavepoint world3 (Some 2)))) = calls (txn world3) @ [ExecuteSave 7, ExecuteSave 8]
   \<and> fst (rollbackSavepoint world3 (Some 2)) = Inl ValueError
   \<and> savepoints (mgr (snd (rollbackSavepoint world3 (Some 2)))) = [1, 2, 3]
   \<and> calls (txn (snd (rollbackSavepoint world3 (Some 2)))) = calls (txn world3)
   \<and> savepoints (mgr world0) = []
   \<and> \<not> is_top world0 (Some 2)
   \<and> fst (commitSavepoint world0 (Some 2)) = Inl ValueError
   \<and> fst (rollbackSavepoint world0 (Some 2)) = Inl ValueError"
proof -
  have n: "\<not> is_top world3 (Some 2)" and e: "savepoints (mgr world0) = []"
    by (simp_all add: is_top_def world3_def world0_def)
  have c: "calls (txn (snd (commitSavepoint world3 (Some 2)))) = calls (txn world3) @ [ExecuteSave 7, ExecuteSave 8]"
    by (simp add: commitSavepoint_not_top [OF n] new_calls_def) (simp add: world3_def)
  have s: "savepoints (mgr world3) = [1, 2, 3]"
    by (simp add: world3_def)
  show ?thesis
    using n e c s failed_check_keeps_stack [of world3 "Some 2"]
      failed_check_keeps_stack [of world0 "Some 2"]
    by simp
qed

lemma count_ExecuteSave: "count_list (map ExecuteSave q) (ExecuteSave s) = count_list q s"
  by (induction q) auto

text \<open>
  Claim C5. The writes queued when \<^verbatim>\<open>pushSavepoint\<close> or \<^verbatim>\<open>commitSavepoint\<close>
  is called are executed, each as often as it is queued, before the savepoint is
  created (respectively before the commit is made, if it is made), and the queue is
  empty afterwards. The writes queued when \<^verbatim>\<open>rollbackSavepoint\<close> is called are
  dropped: none is executed and the queue is empty afterwards.
\<close>

theorem deferred_writes_at_boundaries:
  "calls (txn (snd (pushSavepoint w)))
      = calls (txn w) @ map ExecuteSave (queuedSaves (mgr w)) @ [Savepoint (fst (pushSavepoint w))]
   \<and> queuedSaves (mgr (snd (pushSavepoint w))) = []
   \<and> calls (txn (snd (commitSavepoint w h)))
      = calls (txn w) @ map ExecuteSave (queuedSaves (mgr w)) @ (if is_top w h then [SavepointCommit h] else [])
   \<and> queuedSaves (mgr (snd (commitSavepoint w h))) = []
   \<and> calls (txn (snd (rollbackSavepoint w h)))
      = calls (txn w) @ (if is_top w h then [SavepointRollback h] else [])
   \<and> queuedSaves (mgr (snd (rollbackSavepoint w h))) = []
   \<and> (\<forall>s. count_list (new_calls w (snd (pushSavepoint w))) (ExecuteSave s)
            = count_list (queuedSaves (mgr w)) s)
   \<and> (\<forall>s. count_list (new_calls w (snd (commitSavepoint w h))) (ExecuteSave s)
            = count_list (queuedSaves (mgr w)) s)
   \<and> (\<forall>s. ExecuteSave s \<notin> set (new_calls w (snd (rollbackSavepoint w h))))"
proof -
  have p: "calls (txn (snd (pushSavepoint w)))
      = calls (txn w) @ map ExecuteSave (queuedSaves (mgr w)) @ [Savepoint (fst (pushSavepoint w))]"
    by (simp add: pushSavepoint_eq new_calls_def)
  have c: "calls (txn (snd (commitSavepoint w h)))
      = calls (txn w) @ map ExecuteSave (queuedSaves (mgr w)) @ (if is_top w h then [SavepointCommit h] else [])"
    by (cases "is_top w h")
      (simp_all add: commitSavepoint_top commitSavepoint_not_top new_calls_def)
  have r: "calls (txn (snd (rollbackSavepoint w h)))
      = calls (txn w) @ (if is_top w h then [SavepointRollback h] else [])"
    by (cases "is_top w h")
      (simp_all add: rollbackSavepoint_top rollbackSavepoint_not_top new_calls_def)
  have q1: "queuedSaves (mgr (snd (pushSavepoint w))) = []"
    by (simp add: pushSavepoint_eq)
  have q2: "queuedSaves (mgr (snd (commitSavepoint w h))) = []"
    by (cases "is_top w h") (simp_all add: commitSavepoint_top commitSavepoint_not_top)
  have q3: "queuedSaves (mgr (snd (rollbackSavepoint w h))) = []"
    by (cases "is_top w h") (simp_all add: rollbackSavepoint_top rollbackSavepoint_not_top)
  have n1: "count_list (new_calls w (snd (pushSavepoint w))) (ExecuteSave s)
            = count_list (queuedSaves (mgr w)) s" for s
    by (simp add: new_calls_def p count_ExecuteSave)
  have n2: "count_list (new_calls w (snd (commitSavepoint w h))) (ExecuteSave s)
            = count_list (queuedSaves (mgr w)) s" for s
    by (simp add: new_calls_def c count_ExecuteSave)
  have n3: "ExecuteSave s \<notin> set (new_calls w (snd (rollbackSavepoint w h)))" for s
    by (simp add: new_calls_def r)
  show ?thesis
    using p c r q1 q2 q3 n1 n2 n3 by blast
qed

theorem deferred_writes_at_boundaries_witness:
  "calls (txn (snd (pushSavepoint world3))) = calls (txn world3) @ [ExecuteSave 7, ExecuteSave 8, Savepoint 4]
   \<and> calls (txn (snd (commitSavepoint world3 (Some 3))))
       = calls (txn world3) @ [ExecuteSave 7, ExecuteSave 8, SavepointCommit (Some 3)]
   \<and> calls (txn (snd (rollbackSavepoint world3 (Some 3)))) = calls (txn world3) @ [SavepointRollback (Some 3)]
   \<and> queuedSaves (mgr (snd (rollbackSavepoint world3 (Some 3)))) = []"
proof -
  have t: "is_top world3 (Some 3)"
    by (simp add: is_top_def world3_def)
  have q: "queuedSaves (mgr world3) = [7, 8]" and f: "fst (pushSavepoint world3) = 4"
    by (simp_all add: world3_def pushSavepoint_eq)
  show ?thesis
    using t q f deferred_writes_at_boundaries [of world3 "Some 3"] by simp
qed

section \<open>The scoped savepoint\<close>

lemma enter_eq:
  "SavepointContext_enter (savepoint w) w =
    (\<lparr>sc_savepoint = Some (next_sid (txn w)), managingTransaction = (\<not> is_managed (txn w))\<rparr>,
     w\<lparr>mgr := (mgr w)\<lparr>queuedSaves := [], savepoints := savepoints (mgr w) @ [next_sid (txn w)]\<rparr>,
       txn := (txn w)\<lparr>
         state_stack := (if is_managed (txn w) then state_stack (txn w) else state_stack (txn w) @ [True]),
         calls := calls (txn w) @ (if is_managed (txn w) then [] else [EnterTransactionManagement, Managed True])
                   @ map ExecuteSave (queuedSaves (mgr w)) @ [Savepoint (next_sid (txn w))],
         next_sid := Suc (next_sid (txn w))\<rparr>\<rparr>)"
  by (cases w) (auto simp: SavepointContext_enter_def savepoint_def pushSavepoint_eq
      enter_transaction_management_def managed_def Let_def)

lemma exit_top_normal:
  "is_top w h \<Longrightarrow> sc_savepoint sc = h \<Longrightarrow> SavepointContext_exit sc None w =
    (Inr (), w\<lparr>mgr := (mgr w)\<lparr>queuedSaves := [], savepoints := butlast (savepoints (mgr w))\<rparr>,
               txn := (txn w)\<lparr>
                 state_stack := (if managingTransaction sc then butlast (state_stack (txn w)) else state_stack (txn w)),
                 calls := calls (txn w) @ map ExecuteSave (queuedSaves (mgr w)) @ [SavepointCommit h]
                    @ (if managingTransaction sc then [Commit, LeaveTransactionManagement] else [])\<rparr>\<rparr>)"
  by (cases w) (auto simp: SavepointContext_exit_def commitSavepoint_top commit_def
      leave_transaction_management_def)

lemma exit_top_raised:
  "is_top w h \<Longrightarrow> sc_savepoint sc = h \<Longrightarrow> SavepointContext_exit sc (Some e) w =
    (Inr (), w\<lparr>mgr := (mgr w)\<lparr>queuedSaves := [], savepoints := butlast (savepoints (mgr w))\<rparr>,
               txn := (txn w)\<lparr>
                 state_stack := (if managingTransaction sc then butlast (state_stack (txn w)) else state_stack (txn w)),
                 calls := calls (txn w) @ [SavepointRollback h]
                    @ (if managingTransaction sc then [Rollback, LeaveTransactionManagement] else [])\<rparr>\<rparr>)"
  by (cases w) (auto simp: SavepointContext_exit_def rollbackSavepoint_top rollback_def
      leave_transaction_management_def)

lemma exit_not_top:
  "\<not> is_top w h \<Longrightarrow> sc_savepoint sc = h \<Longrightarrow> SavepointContext_exit sc exc w =
    (Inl ValueError, w\<lparr>mgr := (mgr w)\<lparr>queuedSaves := []\<rparr>,
               txn := (txn w)\<lparr>
                 state_stack := (if managingTransaction sc then butlast (state_stack (txn w)) else state_stack (txn w)),
                 calls := calls (txn w) @ (if exc = None then map ExecuteSave (queuedSaves (mgr w)) else [])
                    @ (if managingTransaction sc then [LeaveTransactionManagement] else [])\<rparr>\<rparr>)"
  by (cases w) (auto simp: SavepointContext_exit_def rollbackSavepoint_not_top commitSavepoint_not_top
      leave_transaction_management_def)

text \<open>
  Claim C4, as stated, fails: a block that starts its own outer transaction, leaves a
  savepoint of its own open and raises makes \<^verbatim>\<open>rollbackSavepoint\<close> raise in
  \<^verbatim>\<open>__exit__\<close>; \<^verbatim>\<open>transaction.rollback\<close> is then not called, and two
  savepoints stay on the stack.
\<close>

theorem scoped_savepoint_counterexample:
  "managingTransaction (savepoint world0)
   \<and> fst (body_leaks (snd (SavepointContext_enter (savepoint world0) world0))) = Some (UserError 7)
   \<and> fst (with_savepoint body_leaks world0) = Inl ValueError
   \<and> calls (txn (snd (with_savepoint body_leaks world0)))
       = [EnterTransactionManagement, Managed True, Savepoint 1, Savepoint 2,
          LeaveTransactionManagement]
   \<and> Rollback \<notin> set (calls (txn (snd (with_savepoint body_leaks world0))))
   \<and> savepoints (mgr (snd (with_savepoint body_leaks world0))) = [1, 2]"
proof -
  have m: "managingTransaction (savepoint world0)"
    by (simp add: savepoint_def world0_def is_managed_def)
  define w1 where "w1 = snd (SavepointContext_enter (savepoint world0) world0)"
  define sc where "sc = fst (SavepointContext_enter (savepoint world0) world0)"
  define w2 where "w2 = snd (pushSavepoint w1)"
  have e: "SavepointContext_enter (savepoint world0) world0 = (sc, w1)"
    by (simp add: sc_def w1_def)
  have sc: "sc_savepoint sc = Some 1" "managingTransaction sc"
    by (simp_all add: sc_def enter_eq world0_def is_managed_def)
  have w1: "savepoints (mgr w1) = [1]" "next_sid (txn w1) = 2"
    "calls (txn w1) = [EnterTransactionManagement, Managed True, Savepoint 1]"
    "queuedSaves (mgr w1) = []"
    by (simp_all add: w1_def enter_eq world0_def is_managed_def)
  have w2: "savepoints (mgr w2) = [1, 2]"
    "calls (txn w2) = [EnterTransactionManagement, Managed True, Savepoint 1, Savepoint 2]"
    by (simp_all add: w2_def pushSavepoint_eq w1)
  have b: "body_leaks w1 = (Some (UserError 7), w2)"
    by (simp add: body_leaks_def w2_def)
  have n: "\<not> is_top w2 (Some 1)"
    by (simp add: is_top_def w2)
  have x: "SavepointContext_exit sc (Some (UserError 7)) w2 =
      (Inl ValueError, w2\<lparr>mgr := (mgr w2)\<lparr>queuedSaves := []\<rparr>,
         txn := (txn w2)\<lparr>state_stack := butlast (state_stack (txn w2)),
                         calls := calls (txn w2) @ [LeaveTransactionManagement]\<rparr>\<rparr>)"
    using exit_not_top [OF n, of sc "Some (UserError 7)"] sc by simp
  have r: "with_savepoint body_leaks world0 =
      (Inl ValueError, w2\<lparr>mgr := (mgr w2)\<lparr>queuedSaves := []\<rparr>,
         txn := (txn w2)\<lparr>state_stack := butlast (state_stack (txn w2)),
                         calls := calls (txn w2) @ [LeaveTransactionManagement]\<rparr>\<rparr>)"
    by (simp add: with_savepoint_def e b x)
  show ?thesis
    using m by (simp add: r w2 b e)
qed

text \<open>
  Claim C4, amended. The scope manages the outer transaction exactly when none was
  managed at entry. When the block leaves the scope's savepoint on top of the stack:
  on normal exit the savepoint is committed and, if the scope manages the
  transaction, \<^verbatim>\<open>transaction.commit\<close> is called; on exceptional exit the savepoint is
  rolled back and, if the scope manages the transaction, \<^verbatim>\<open>transaction.rollback\<close> is
  called, and the exception of the block propagates. When the savepoint is not on top,
  the savepoint call raises \<^verbatim>\<open>ValueError\<close>, neither \<^verbatim>\<open>transaction.commit\<close> nor
  \<^verbatim>\<open>transaction.rollback\<close> is called and the stack stays as the block left it. In
  every case a managing scope ends with \<^verbatim>\<open>leave_transaction_management\<close>. A
  managing scope whose block leaves the savepoint stack and the management stack as it
  found them ends with both as they were before the scope, whether the block returned
  or raised.
\<close>

theorem scoped_savepoint:
  assumes en: "SavepointContext_enter (savepoint w) w = (sc, w1)"
    and bo: "body w1 = (exc, w2)"
    and wi: "with_savepoint body w = (r, w3)"
  shows "managingTransaction sc = (\<not> is_managed (txn w))
    \<and> (is_top w2 (sc_savepoint sc) \<and> exc = None \<longrightarrow>
          r = Inr ()
          \<and> calls (txn w3) = calls (txn w2) @ map ExecuteSave (queuedSaves (mgr w2))
               @ [SavepointCommit (sc_savepoint sc)]
               @ (if managingTransaction sc then [Commit, LeaveTransactionManagement] else [])
          \<and> savepoints (mgr w3) = butlast (savepoints (mgr w2)))
    \<and> (is_top w2 (sc_savepoint sc) \<and> exc \<noteq> None \<longrightarrow>
          Some r = map_option Inl exc
          \<and> calls (txn w3) = calls (txn w2) @ [SavepointRollback (sc_savepoint sc)]
               @ (if managingTransaction sc then [Rollback, LeaveTransactionManagement] else [])
          \<and> savepoints (mgr w3) = butlast (savepoints (mgr w2)))
    \<and> (\<not> is_top w2 (sc_savepoint sc) \<longrightarrow>
          r = Inl ValueError
          \<and> calls (txn w3) = calls (txn w2) @ (if exc = None then map ExecuteSave (queuedSaves (mgr w2)) else [])
               @ (if managingTransaction sc then [LeaveTransactionManagement] else [])
          \<and> savepoints (mgr w3) = savepoints (mgr w2))
    \<and> (managingTransaction sc \<longrightarrow>
          calls (txn w3) \<noteq> [] \<and> last (calls (txn w3)) = LeaveTransactionManagement
          \<and> state_stack (txn w3) = butlast (state_stack (txn w2)))
    \<and> (managingTransaction sc \<and> savepoints (mgr w2) = savepoints (mgr w1)
          \<and> state_stack (txn w2) = state_stack (txn w1) \<longrightarrow>
          savepoints (mgr w3) = savepoints (mgr w)
          \<and> state_stack (txn w3) = state_stack (txn w)
          \<and> \<not> is_managed (txn w3)
          \<and> r = (case exc of None \<Rightarrow> Inr () | Some e \<Rightarrow> Inl e))"
proof -
  have sc: "sc_savepoint sc = Some (next_sid (txn w))"
      "managingTransaction sc = (\<not> is_managed (txn w))"
    using en by (auto simp: enter_eq)
  have w1: "savepoints (mgr w1) = savepoints (mgr w) @ [next_sid (txn w)]"
     "state_stack (txn w1) = (if is_managed (txn w) then state_stack (txn w) else state_stack (txn w) @ [True])"
    using en by (auto simp: enter_eq)
  have wx: "with_savepoint body w =
     (case SavepointContext_exit sc exc w2 of
             (Inl e, w3) \<Rightarrow> (Inl e, w3)
           | (Inr u, w3) \<Rightarrow>
               (case exc of None \<Rightarrow> (Inr u, w3) | Some e \<Rightarrow> (Inl e, w3)))"
    by (simp add: with_savepoint_def en bo)
  have top_normal: "r = Inr ()
          \<and> calls (txn w3) = calls (txn w2) @ map ExecuteSave (queuedSaves (mgr w2))
               @ [SavepointCommit (sc_savepoint sc)]
               @ (if managingTransaction sc then [Commit, LeaveTransactionManagement] else [])
          \<and> savepoints (mgr w3) = butlast (savepoints (mgr w2))
          \<and> state_stack (txn w3) = (if managingTransaction sc then butlast (state_stack (txn w2)) else state_stack (txn w2))"
    if "is_top w2 (sc_savepoint sc)" "exc = None"
    using wi that unfolding wx by (auto simp: exit_top_normal [OF that(1)] new_calls_def)
  have top_raised: "Some r = map_option Inl exc
          \<and> calls (txn w3) = calls (txn w2) @ [SavepointRollback (sc_savepoint sc)]
               @ (if managingTransaction sc then [Rollback, LeaveTransactionManagement] else [])
          \<and> savepoints (mgr w3) = butlast (savepoints (mgr w2))
          \<and> state_stack (txn w3) = (if managingTransaction sc then butlast (state_stack (txn w2)) else state_stack (txn w2))"
    if "is_top w2 (sc_savepoint sc)" "exc \<noteq> None"
    using wi that unfolding wx by (auto simp: exit_top_raised [OF that(1)] new_calls_def)
  have not_top: "r = Inl ValueError
          \<and> calls (txn w3) = calls (txn w2) @ (if exc = None then map ExecuteSave (queuedSaves (mgr w2)) else [])
               @ (if managingTransaction sc then [LeaveTransactionManagement] else [])
          \<and> savepoints (mgr w3) = savepoints (mgr w2)
          \<and> state_stack (txn w3) = (if managingTransaction sc then butlast (state_stack (txn w2)) else state_stack (txn w2))"
    if "\<not> is_top w2 (sc_savepoint sc)"
    using wi that unfolding wx by (auto simp: exit_not_top [OF that(1)] new_calls_def)
  have release: "calls (txn w3) \<noteq> [] \<and> last (calls (txn w3)) = LeaveTransactionManagement
          \<and> state_stack (txn w3) = butlast (state_stack (txn w2))"
    if "managingTransaction sc"
  proof (cases "is_top w2 (sc_savepoint sc)")
    case True
    then show ?thesis
      using top_normal top_raised that by (cases "exc = None") auto
  next
    case False
    then show ?thesis
      using not_top that by auto
  qed
  have balanced: "savepoints (mgr w3) = savepoints (mgr w)
          \<and> state_stack (txn w3) = state_stack (txn w)
          \<and> \<not> is_managed (txn w3)
          \<and> r = (case exc of None \<Rightarrow> Inr () | Some e \<Rightarrow> Inl e)"
    if m: "managingTransaction sc" and s: "savepoints (mgr w2) = savepoints (mgr w1)"
      and st: "state_stack (txn w2) = state_stack (txn w1)"
  proof -
    have t: "is_top w2 (sc_savepoint sc)"
      by (simp add: is_top_def s w1 sc)
    have nm: "\<not> is_managed (txn w)"
      using m sc by simp
    have "state_stack (txn w3) = state_stack (txn w)"
      using release [OF m] st w1 nm by simp
    moreover have "savepoints (mgr w3) = savepoints (mgr w)"
      using top_normal [OF t] top_raised [OF t] s w1 by (cases "exc = None") auto
    moreover have "r = (case exc of None \<Rightarrow> Inr () | Some e \<Rightarrow> Inl e)"
      using top_normal [OF t] top_raised [OF t] by (cases exc) auto
    ultimately show ?thesis
      using nm by (auto simp: is_managed_def split: if_splits)
  qed
  show ?thesis
    using sc(2) top_normal top_raised not_top release balanced by blast
qed

theorem scoped_savepoint_witness:
  "fst (with_savepoint body_ok world0) = Inr ()
   \<and> calls (txn (snd (with_savepoint body_ok world0)))
       = [EnterTransactionManagement, Managed True, Savepoint 1,
          SavepointCommit (Some 1), Commit, LeaveTransactionManagement]
   \<and> savepoints (mgr (snd (with_savepoint body_ok world0))) = []
   \<and> state_stack (txn (snd (with_savepoint body_ok world0))) = []
   \<and> fst (with_savepoint body_raises world0) = Inl (UserError 7)
   \<and> calls (txn (snd (with_savepoint body_raises world0)))
       = [EnterTransactionManagement, Managed True, Savepoint 1,
          SavepointRollback (Some 1), Rollback, LeaveTransactionManagement]
   \<and> savepoints (mgr (snd (with_savepoint body_raises world0))) = []
   \<and> state_stack (txn (snd (with_savepoint body_raises world0))) = []
   \<and> fst (with_savepoint body_leaks world0) = Inl ValueError
   \<and> savepoints (mgr (snd (with_savepoint body_leaks world0))) = [1, 2]
   \<and> state_stack (txn (snd (with_savepoint body_leaks world0))) = []"
proof -
  define sc where "sc = fst (SavepointContext_enter (savepoint world0) world0)"
  define w1 where "w1 = snd (SavepointContext_enter (savepoint world0) world0)"
  define w2 where "w2 = snd (pushSavepoint w1)"
  have e: "SavepointContext_enter (savepoint world0) world0 = (sc, w1)"
    by (simp add: sc_def w1_def)
  have sc: "sc_savepoint sc = Some 1" "managingTransaction sc"
    by (simp_all add: sc_def enter_eq world0_def is_managed_def)
  have w0: "savepoints (mgr world0) = []" "state_stack (txn world0) = []"
    by (simp_all add: world0_def)
  have w1: "savepoints (mgr w1) = [1]" "next_sid (txn w1) = 2"
    "calls (txn w1) = [EnterTransactionManagement, Managed True, Savepoint 1]"
    "queuedSaves (mgr w1) = []" "state_stack (txn w1) = [True]"
    by (simp_all add: w1_def enter_eq world0_def is_managed_def)
  have w2: "savepoints (mgr w2) = [1, 2]" "queuedSaves (mgr w2) = []"
    "calls (txn w2) = [EnterTransactionManagement, Managed True, Savepoint 1, Savepoint 2]"
    "state_stack (txn w2) = [True]"
    by (simp_all add: w2_def pushSavepoint_eq w1)
  have t: "is_top w1 (sc_savepoint sc)" and n: "\<not> is_top w2 (sc_savepoint sc)"
    by (simp_all add: is_top_def w1 w2 sc)
  have b1: "body_ok w1 = (None, w1)" and b2: "body_raises w1 = (Some (UserError 7), w1)"
    and b3: "body_leaks w1 = (Some (UserError 7), w2)"
    by (simp_all add: body_ok_def body_raises_def body_leaks_def w2_def)
  note r1 = scoped_savepoint [where body = body_ok, OF e b1 surjective_pairing]
  note r2 = scoped_savepoint [where body = body_raises, OF e b2 surjective_pairing]
  note r3 = scoped_savepoint [where body = body_leaks, OF e b3 surjective_pairing]
  have c1: "calls (txn (snd (with_savepoint body_ok world0)))
       = [EnterTransactionManagement, Managed True, Savepoint 1,
          SavepointCommit (Some 1), Commit, LeaveTransactionManagement]"
    using r1 t sc w1 by simp
  have c2: "calls (txn (snd (with_savepoint body_raises world0)))
       = [EnterTransactionManagement, Managed True, Savepoint 1,
          SavepointRollback (Some 1), Rollback, LeaveTransactionManagement]"
    using r2 t sc w1 by simp
  show ?thesis
    using r1 r2 r3 t n sc w0 w1 w2 c1 c2 by simp
qed

section \<open>The registry\<close>

lemma regd_ineligible: "\<not> isRegisterable x \<Longrightarrow> regd c x = (x, c)"
  by (simp add: regd_def)

lemma regd_cached:
  "isRegisterable (Some e) \<Longrightarrow> map_of (pkRegistry c) (regkey_of e) = Some cached
     \<Longrightarrow> regd c (Some e) = (Some cached, c)"
  by (simp add: regd_def)

lemma regd_new:
  "isRegisterable (Some e) \<Longrightarrow> map_of (pkRegistry c) (regkey_of e) = None
     \<Longrightarrow> regd c (Some e) = (Some e, c\<lparr>pkRegistry := pkRegistry c @ [(regkey_of e, e)]\<rparr>)"
  by (simp add: regd_def)

lemma regd_keeps_entry:
  "map_of (pkRegistry c) k = Some e0 \<Longrightarrow> map_of (pkRegistry (snd (regd c x))) k = Some e0"
  by (auto simp: regd_def split: option.splits)

lemma regd_keeps_distinct:
  "distinct (map fst (pkRegistry c)) \<Longrightarrow> distinct (map fst (pkRegistry (snd (regd c x))))"
  by (auto simp: regd_def map_of_eq_None_iff split: option.splits)

lemma regd_keeps_savepoints:
  "savepoints (snd (regd c x)) = savepoints c \<and> queuedSaves (snd (regd c x)) = queuedSaves c"
  by (auto simp: regd_def split: option.splits)

lemma regd_registers:
  "isRegisterable (Some e) \<Longrightarrow>
     map_of (pkRegistry (snd (regd c (Some e)))) (regkey_of e) = fst (regd c (Some e))"
  by (auto simp: regd_def map_add_def split: option.splits)

lemma regd_idem:
  "regd (snd (regd c x)) x = (fst (regd c x), snd (regd c x))"
  by (cases "isRegisterable x") (auto simp: regd_def map_add_def split: option.splits)

text \<open>
  Claim C2. \<^verbatim>\<open>regd\<close> is to store an entity that has no policy hook and a primary
  key that is not null. For the key \<open>0\<close> the code does not: the test without a hook is
  the truth value of \<^verbatim>\<open>entity.pk\<close>, which is false for \<open>0\<close>, so the entity is
  returned and the registry stays without an entry for it.
\<close>

theorem regd_falsy_pk_not_stored:
  "pk user0 \<noteq> PyNone \<and> canBeRegd user0 = None
   \<and> map_of (pkRegistry (mgr world0)) (regkey_of user0) = None
   \<and> regd (mgr world0) (Some user0) = (Some user0, mgr world0)
   \<and> map_of (pkRegistry (snd (regd (mgr world0) (Some user0)))) (regkey_of user0) = None"
  by (simp add: user0_def canBeRegd_def world0_def regd_def isRegisterable_def)

lemma filter_key_absent:
  "k \<notin> fst ` set xs \<Longrightarrow> filter (\<lambda>(k', e). k' \<noteq> k) xs = xs"
  by (induction xs) auto

lemma filter_key_length:
  "distinct (map fst xs) \<Longrightarrow> k \<in> fst ` set xs
     \<Longrightarrow> Suc (length (filter (\<lambda>(k', e). k' \<noteq> k) xs)) = length xs"
  by (induction xs) (auto simp: filter_key_absent)

lemma delete_filter: "AList.delete k xs = filter (\<lambda>(k', e). k' \<noteq> k) xs"
  by (induction xs) auto

text \<open>
  Claim C7. \<^verbatim>\<open>ejectFromRegistry\<close> removes the entry under the key (class name,
  primary key) of its argument, whichever instance is stored there, and leaves every
  other entry as it is; without such an entry it changes nothing. Afterwards a lookup
  of that key without a fetch function returns \<^verbatim>\<open>None\<close>. The pre-delete receiver
  calls it on the current context, and does nothing without one.
\<close>

theorem eject_removes_one_entry:
  "map_of (pkRegistry (ejectFromRegistry c obj)) k
     = (if k = (cls obj, pk obj) then None else map_of (pkRegistry c) k)
   \<and> pkRegistry (ejectFromRegistry c obj)
     = filter (\<lambda>(k, e). k \<noteq> (cls obj, pk obj)) (pkRegistry c)
   \<and> (map_of (pkRegistry c) (cls obj, pk obj) = None \<longrightarrow> ejectFromRegistry c obj = c)
   \<and> (distinct (map fst (pkRegistry c)) \<and> map_of (pkRegistry c) (cls obj, pk obj) \<noteq> None \<longrightarrow>
        Suc (length (pkRegistry (ejectFromRegistry c obj))) = length (pkRegistry c))
   \<and> regdLookup (ejectFromRegistry c obj) (cls obj) (pk obj) None
        = (Inr None, ejectFromRegistry c obj)
   \<and> onPreDeleteSignal (Some c) obj = Some (ejectFromRegistry c obj)
   \<and> onPreDeleteSignal None obj = None"
proof -
  let ?key = "(cls obj, pk obj)"
  have reg: "pkRegistry (ejectFromRegistry c obj)
     = filter (\<lambda>(k, e). k \<noteq> ?key) (pkRegistry c)"
    by (simp add: ejectFromRegistry_def Let_def delete_filter filter_key_absent)
  have m: "map_of (pkRegistry (ejectFromRegistry c obj)) k
     = (if k = ?key then None else map_of (pkRegistry c) k)" for k
    unfolding reg delete_filter [symmetric] by (simp add: AList.delete_conv')
  have noop: "ejectFromRegistry c obj = c" if "map_of (pkRegistry c) ?key = None"
    using that by (simp add: ejectFromRegistry_def Let_def map_of_eq_None_iff)
  have len: "Suc (length (pkRegistry (ejectFromRegistry c obj))) = length (pkRegistry c)"
    if "distinct (map fst (pkRegistry c))" and "map_of (pkRegistry c) ?key \<noteq> None"
    unfolding reg using that by (intro filter_key_length) (auto simp: map_of_eq_None_iff)
  have look: "regdLookup (ejectFromRegistry c obj) (cls obj) (pk obj) None
        = (Inr None, ejectFromRegistry c obj)"
    by (simp add: regdLookup_def m)
  have sig: "onPreDeleteSignal (Some c) obj = Some (ejectFromRegistry c obj)"
     "onPreDeleteSignal None obj = None"
    by (simp_all add: onPreDeleteSignal_def current_def)
  show ?thesis
    using reg m noop len look sig by blast
qed

theorem eject_removes_one_entry_witness:
  "distinct (map fst (pkRegistry ctx_order))
   \<and> map_of (pkRegistry ctx_order) (cls order2, pk order2) = Some order1
   \<and> order1 \<noteq> order2
   \<and> pkRegistry (ejectFromRegistry ctx_order order2) = []
   \<and> regdLookup (ejectFromRegistry ctx_order order2) ''Order'' (PyInt 42) None
        = (Inr None, ejectFromRegistry ctx_order order2)
   \<and> map_of (pkRegistry (mgr world0)) (cls order2, pk order2) = None
   \<and> ejectFromRegistry (mgr world0) order2 = mgr world0"
proof -
  have a: "distinct (map fst (pkRegistry ctx_order))"
    "map_of (pkRegistry ctx_order) (cls order2, pk order2) = Some order1"
    "order1 \<noteq> order2" "cls order2 = ''Order''" "pk order2 = PyInt 42"
    "pkRegistry ctx_order = [((''Order'', PyInt 42), order1)]"
    by (simp_all add: ctx_order_def order1_def order2_def)
  have b: "map_of (pkRegistry (mgr world0)) (cls order2, pk order2) = None"
    by (simp add: world0_def)
  show ?thesis
    using a b eject_removes_one_entry [of ctx_order order2 "(''Order'', PyInt 42)"]
      eject_removes_one_entry [of "mgr world0" order2 "(''Order'', PyInt 42)"]
    by simp
qed

section \<open>One instance per key\<close>

lemma isRegisterable_accepted: "isRegisterable x = accepted x"
  by (cases x) (auto simp: isRegisterable_def accepted_def eligible_def falsy_key_def
      split: option.splits)

lemma regd_lookup:
  "map_of (pkRegistry (snd (regd c x))) k =
     (case map_of (pkRegistry c) k of
        Some e0 \<Rightarrow> Some e0
      | None \<Rightarrow> if accepted x \<and> key_of x = Some k then x else None)"
  by (cases x)
    (auto simp: regd_def isRegisterable_accepted key_of_def map_add_def split: option.splits)

lemma regd_answer_accepted:
  "accepted x \<Longrightarrow> key_of x = Some k \<Longrightarrow>
     \<exists>e. fst (regd c x) = Some e \<and> map_of (pkRegistry (snd (regd c x))) k = Some e"
  by (cases x)
    (auto simp: regd_def isRegisterable_accepted key_of_def map_add_def split: option.splits)

lemma regd_answer_declined: "\<not> eligible x \<Longrightarrow> regd c x = (x, c)"
  by (simp add: regd_def isRegisterable_accepted accepted_def)

lemma allRegd_length: "length (fst (allRegd c xs)) = length xs"
proof (induction xs arbitrary: c)
  case Nil
  then show ?case by simp
next
  case (Cons x xs)
  show ?case
    using Cons.IH [of "snd (regd c x)"] by (auto split: prod.splits)
qed

lemma allRegd_append:
  "allRegd c (xs @ ys) =
     (fst (allRegd c xs) @ fst (allRegd (snd (allRegd c xs)) ys),
      snd (allRegd (snd (allRegd c xs)) ys))"
  by (induction xs arbitrary: c) (auto split: prod.splits)

lemma allRegd_final:
  "map_of (pkRegistry (snd (allRegd c xs))) k =
     (case map_of (pkRegistry c) k of Some e0 \<Rightarrow> Some e0 | None \<Rightarrow> first_accepted k xs)"
proof (induction xs arbitrary: c)
  case Nil
  then show ?case by (simp add: first_accepted_def split: option.splits)
next
  case (Cons x xs)
  have s: "snd (allRegd c (x # xs)) = snd (allRegd (snd (regd c x)) xs)"
    by (simp split: prod.splits)
  have acc: "accepted x \<Longrightarrow> x \<noteq> None"
    by (cases x) (auto simp: accepted_def eligible_def)
  show ?case
    unfolding s Cons.IH regd_lookup
    using acc by (auto simp: first_accepted_def split: option.splits)
qed

lemma allRegd_keeps_entry:
  "map_of (pkRegistry c) k = Some e0 \<Longrightarrow> map_of (pkRegistry (snd (allRegd c xs))) k = Some e0"
  by (simp add: allRegd_final)

lemma allRegd_answers:
  "(x, r) \<in> set (zip xs (fst (allRegd c xs))) \<Longrightarrow> accepted x \<Longrightarrow> key_of x = Some k
     \<Longrightarrow> \<exists>e. r = Some e \<and> map_of (pkRegistry (snd (allRegd c xs))) k = Some e"
proof (induction xs arbitrary: c)
  case Nil
  then show ?case by simp
next
  case (Cons y ys)
  have s: "allRegd c (y # ys) =
      (fst (regd c y) # fst (allRegd (snd (regd c y)) ys), snd (allRegd (snd (regd c y)) ys))"
    by (simp split: prod.splits)
  from Cons.prems(1) consider (hd) "x = y" "r = fst (regd c y)"
    | (tl) "(x, r) \<in> set (zip ys (fst (allRegd (snd (regd c y)) ys)))"
    unfolding s by auto
  then show ?case
  proof cases
    case hd
    from regd_answer_accepted [OF Cons.prems(2,3), of c] hd
    obtain e where e: "r = Some e" "map_of (pkRegistry (snd (regd c y))) k = Some e"
      by auto
    show ?thesis
      unfolding s using allRegd_keeps_entry [OF e(2), of ys] e(1) by simp
  next
    case tl
    from Cons.IH [OF tl Cons.prems(2,3)] show ?thesis
      unfolding s by simp
  qed
qed

lemma allRegd_declined:
  "(x, r) \<in> set (zip xs (fst (allRegd c xs))) \<Longrightarrow> \<not> eligible x \<Longrightarrow> r = x"
proof (induction xs arbitrary: c)
  case Nil
  then show ?case by simp
next
  case (Cons y ys)
  have s: "allRegd c (y # ys) =
      (fst (regd c y) # fst (allRegd (snd (regd c y)) ys), snd (allRegd (snd (regd c y)) ys))"
    by (simp split: prod.splits)
  from Cons.prems(1) consider (hd) "x = y" "r = fst (regd c y)"
    | (tl) "(x, r) \<in> set (zip ys (fst (allRegd (snd (regd c y)) ys)))"
    unfolding s by auto
  then show ?case
  proof cases
    case hd
    then show ?thesis
      using regd_answer_declined [OF Cons.prems(2), of c] by simp
  next
    case tl
    from Cons.IH [OF tl Cons.prems(2)] show ?thesis .
  qed
qed

lemma allRegd_distinct:
  "distinct (map fst (pkRegistry c)) \<Longrightarrow> distinct (map fst (pkRegistry (snd (allRegd c xs))))"
proof (induction xs arbitrary: c)
  case Nil
  then show ?case by simp
next
  case (Cons x xs)
  show ?case
    using Cons.IH [OF regd_keeps_distinct [OF Cons.prems, of x]]
    by (auto split: prod.splits)
qed

lemma iterator_allRegd:
  "iterator (Some c) es = (case allRegd c (map Some es) of (rs, c') \<Rightarrow> (rs, Some c'))"
  by (induction es arbitrary: c) (auto split: prod.splits)

lemma fetch_path_allRegd:
  "fetch_path c f = (zip (given f) (fst (allRegd c (given f))), snd (allRegd c (given f)))"
  by (cases f)
    (auto simp: iterator_allRegd ContextAwareModelBase_call_def current_def split: prod.splits)

lemma fetches_allRegd:
  "fetches c fs =
     (zip (concat (map given fs)) (fst (allRegd c (concat (map given fs)))),
      snd (allRegd c (concat (map given fs))))"
proof (induction fs arbitrary: c)
  case Nil
  then show ?case by simp
next
  case (Cons f fs)
  show ?case
    by (simp add: Cons.IH fetch_path_allRegd allRegd_append allRegd_length)
qed


lemma eject_lookup:
  "map_of (pkRegistry (ejectFromRegistry c obj)) k
     = (if k = (cls obj, pk obj) then None else map_of (pkRegistry c) k)"
proof -
  have "pkRegistry (ejectFromRegistry c obj) = AList.delete (cls obj, pk obj) (pkRegistry c)"
    by (simp add: ejectFromRegistry_def Let_def delete_filter filter_key_absent)
  then show ?thesis
    by (simp add: AList.delete_conv')
qed

text \<open>
  Claim C1, as stated, fails: with an instance registered under a key, the
  construction of a second instance with the same class name and primary key whose
  policy hook answers false returns the second instance, not the registered one, and
  so do \<^verbatim>\<open>regd\<close> and the query iterator.
\<close>

theorem identity_map_counterexample:
  "map_of (pkRegistry ctx_order) (regkey_of order2_unsafe) = Some order1
   \<and> order2_unsafe \<noteq> order1
   \<and> ContextAwareModelBase_call (Some ctx_order) order2_unsafe
        = (Some order2_unsafe, Some ctx_order)
   \<and> regd ctx_order (Some order2_unsafe) = (Some order2_unsafe, ctx_order)
   \<and> iterator (Some ctx_order) [order2_unsafe] = ([Some order2_unsafe], Some ctx_order)"
proof -
  have n: "\<not> isRegisterable (Some order2_unsafe)"
    by (simp add: isRegisterable_def canBeRegd_def order2_unsafe_def)
  have r: "regd ctx_order (Some order2_unsafe) = (Some order2_unsafe, ctx_order)"
    by (rule regd_ineligible [OF n])
  have k: "map_of (pkRegistry ctx_order) (regkey_of order2_unsafe) = Some order1"
    by (simp add: ctx_order_def regkey_of_def order2_unsafe_def)
  have d: "order2_unsafe \<noteq> order1"
    by (simp add: order2_unsafe_def order1_def)
  show ?thesis
    using k d r by (simp add: ContextAwareModelBase_call_def current_def)
qed

text \<open>
  Claim C1, amended. Take any sequence of direct registrations, query iterations and
  constructions in a context. Every instance given is answered. An instance that is not
  eligible is handed back as it is. An accepted instance is answered with the instance
  the registry holds under its key afterwards, so all accepted instances of one key get
  the same answer. That instance is the one registered under the key before the
  sequence or, if the key was free, the first accepted instance given with that key:
  each path stores it. The registry never holds two entries for a key. The entry ends
  when the registry is flushed or the instance is ejected.
\<close>

theorem identity_map_invariant:
  "map fst (fst (fetches c fs)) = concat (map given fs)
   \<and> (\<forall>(x, r) \<in> set (fst (fetches c fs)). \<not> eligible x \<longrightarrow> r = x)
   \<and> (\<forall>(x, r) \<in> set (fst (fetches c fs)). \<forall>k. accepted x \<and> key_of x = Some k \<longrightarrow>
         r \<noteq> None \<and> r = map_of (pkRegistry (snd (fetches c fs))) k)
   \<and> map_of (pkRegistry (snd (fetches c fs))) k =
        (case map_of (pkRegistry c) k of
           Some e0 \<Rightarrow> Some e0
         | None \<Rightarrow> first_accepted k (concat (map given fs)))
   \<and> (distinct (map fst (pkRegistry c)) \<longrightarrow>
        distinct (map fst (pkRegistry (snd (fetches c fs)))))
   \<and> map_of (pkRegistry (flushRegistry c)) k = None
   \<and> map_of (pkRegistry (ejectFromRegistry c e0)) (regkey_of e0) = None"
proof -
  let ?xs = "concat (map given fs)"
  have f: "fetches c fs = (zip ?xs (fst (allRegd c ?xs)), snd (allRegd c ?xs))"
    by (rule fetches_allRegd)
  have 1: "map fst (fst (fetches c fs)) = ?xs"
    by (simp add: f allRegd_length)
  have 2: "\<forall>(x, r) \<in> set (fst (fetches c fs)). \<not> eligible x \<longrightarrow> r = x"
    unfolding f using allRegd_declined [of _ _ ?xs c] by auto
  have 3: "\<forall>(x, r) \<in> set (fst (fetches c fs)). \<forall>k. accepted x \<and> key_of x = Some k \<longrightarrow>
         r \<noteq> None \<and> r = map_of (pkRegistry (snd (fetches c fs))) k"
    unfolding f using allRegd_answers [of _ _ ?xs c] by fastforce
  have 4: "map_of (pkRegistry (snd (fetches c fs))) k =
        (case map_of (pkRegistry c) k of
           Some e0 \<Rightarrow> Some e0
         | None \<Rightarrow> first_accepted k ?xs)"
    by (simp add: f allRegd_final)
  have 5: "distinct (map fst (pkRegistry c)) \<longrightarrow>
        distinct (map fst (pkRegistry (snd (fetches c fs))))"
    by (simp add: f allRegd_distinct)
  have 6: "map_of (pkRegistry (flushRegistry c)) k = None"
    by (simp add: flushRegistry_def)
  have 7: "map_of (pkRegistry (ejectFromRegistry c e0)) (regkey_of e0) = None"
    by (simp add: eject_lookup regkey_of_def)
  show ?thesis
    using 1 2 3 4 5 6 7 by blast
qed

theorem identity_map_invariant_witness:
  "distinct (map fst (pkRegistry (mgr world0)))
   \<and> accepted (Some order1) \<and> accepted (Some order2)
   \<and> key_of (Some order1) = Some (''Order'', PyInt 42)
   \<and> key_of (Some order2) = Some (''Order'', PyInt 42)
   \<and> \<not> eligible (Some order2_unsafe)
   \<and> fetches (mgr world0)
        [Query [order1], Construct order2, Direct (Some order2), Construct order2_unsafe]
       = ([(Some order1, Some order1), (Some order2, Some order1), (Some order2, Some order1),
           (Some order2_unsafe, Some order2_unsafe)],
          ctx_order)
   \<and> map_of (pkRegistry ctx_order) (''Order'', PyInt 42) = Some order1
   \<and> first_accepted (''Order'', PyInt 42)
        (concat (map given
           [Query [order1], Construct order2, Direct (Some order2), Construct order2_unsafe]))
       = Some order1"
proof -
  let ?fs = "[Query [order1], Construct order2, Direct (Some order2), Construct order2_unsafe]"
  have a: "accepted (Some order1)" "accepted (Some order2)"
    "key_of (Some order1) = Some (''Order'', PyInt 42)"
    "key_of (Some order2) = Some (''Order'', PyInt 42)"
    "\<not> eligible (Some order2_unsafe)" "\<not> accepted (Some order2_unsafe)"
    by (simp_all add: accepted_def eligible_def falsy_key_def canBeRegd_def key_of_def
        regkey_of_def order1_def order2_def order2_unsafe_def)
  have d: "distinct (map fst (pkRegistry (mgr world0)))"
    "map_of (pkRegistry (mgr world0)) (''Order'', PyInt 42) = None"
    by (simp_all add: world0_def)
  have r1: "regd (mgr world0) (Some order1) = (Some order1, ctx_order)"
    using a(1,3) d(2)
    by (simp add: regd_def isRegisterable_accepted key_of_def) (simp add: world0_def ctx_order_def)
  have m: "map_of (pkRegistry ctx_order) (''Order'', PyInt 42) = Some order1"
    by (simp add: ctx_order_def)
  have r2: "regd ctx_order (Some order2) = (Some order1, ctx_order)"
    using a(2,4) m by (simp add: regd_def isRegisterable_accepted key_of_def)
  have r3: "regd ctx_order (Some order2_unsafe) = (Some order2_unsafe, ctx_order)"
    using a(6) by (simp add: regd_def isRegisterable_accepted)
  have f: "fetches (mgr world0) ?fs
       = ([(Some order1, Some order1), (Some order2, Some order1), (Some order2, Some order1),
           (Some order2_unsafe, Some order2_unsafe)],
          ctx_order)"
    by (simp add: r1 r2 r3 ContextAwareModelBase_call_def current_def)
  have fa: "first_accepted (''Order'', PyInt 42) (concat (map given ?fs)) = Some order1"
    using a by (simp add: first_accepted_def)
  show ?thesis
    using a d m f fa
      identity_map_invariant [of "mgr world0" ?fs "(''Order'', PyInt 42)" order1]
    by simp
qed

section \<open>Lookup\<close>

lemma regdLookup_fetched:
  "map_of (pkRegistry c) (entityType, p) = None \<Longrightarrow> f c = (Inr (Some ret), c1)
     \<Longrightarrow> hasattr ret ''entityType''
     \<Longrightarrow> regdLookup c entityType p (Some f) = (Inr (fst (regd c1 (Some ret))), snd (regd c1 (Some ret)))"
  by (auto simp: regdLookup_def hasattr_def split: prod.splits)

lemma regdLookup_no_entityType:
  "map_of (pkRegistry c) (entityType, p) = None \<Longrightarrow> f c = (Inr (Some ret), c1)
     \<Longrightarrow> \<not> hasattr ret ''entityType''
     \<Longrightarrow> regdLookup c entityType p (Some f) = (Inl AttributeError, c1)"
  by (auto simp: regdLookup_def hasattr_def split: prod.splits)

text \<open>
  Claim C6, as stated, fails: on a miss, a fetch function that returns an instance whose
  policy hook answers false gets that instance back from \<^verbatim>\<open>regdLookup\<close>, and the
  registry has no entry for it afterwards: the result is not registered.
\<close>

theorem regdLookup_counterexample:
  "map_of (pkRegistry (mgr world0)) (''Order'', PyInt 42) = None
   \<and> fetch_unsafe (mgr world0) = (Inr (Some fetched_unsafe), mgr world0)
   \<and> regdLookup (mgr world0) ''Order'' (PyInt 42) (Some fetch_unsafe)
        = (Inr (Some fetched_unsafe), mgr world0)
   \<and> map_of (pkRegistry (snd (regdLookup (mgr world0) ''Order'' (PyInt 42) (Some fetch_unsafe))))
        (regkey_of fetched_unsafe) = None"
proof -
  have m: "map_of (pkRegistry (mgr world0)) (''Order'', PyInt 42) = None"
    by (simp add: world0_def)
  have f: "fetch_unsafe (mgr world0) = (Inr (Some fetched_unsafe), mgr world0)"
    by (simp add: fetch_unsafe_def)
  have h: "hasattr fetched_unsafe ''entityType''"
    by (simp add: hasattr_def fetched_unsafe_def)
  have n: "\<not> isRegisterable (Some fetched_unsafe)"
    by (simp add: isRegisterable_def canBeRegd_def fetched_unsafe_def)
  have k: "regkey_of fetched_unsafe = (''Order'', PyInt 42)"
    by (simp add: regkey_of_def fetched_unsafe_def)
  show ?thesis
    using m f by (simp add: regdLookup_fetched [where f = fetch_unsafe, OF m f h] regd_ineligible [OF n] k)
qed

text \<open>
  Claim C6, amended. \<^verbatim>\<open>regdLookup\<close> returns the cached instance when the key is in
  the registry, without calling the fetch function. On a miss without a fetch function
  it returns \<^verbatim>\<open>None\<close> and changes nothing. On a miss with a fetch function the
  function is called. An instance it returns, carrying the attribute
  \<^verbatim>\<open>entityType\<close>, is stored under its key and returned if it is accepted and the
  key is free; if it is accepted and the key is taken, the instance held there is
  returned and nothing is stored; if it is not eligible, it is returned as it is and
  nothing is stored. If the function returns \<^verbatim>\<open>None\<close> the result is
  \<^verbatim>\<open>None\<close> and the context is as the function left it; if it raises, its error is
  the result.
\<close>

theorem regdLookup_contract:
  "(map_of (pkRegistry c) (entityType, p) = Some cached \<longrightarrow>
      regdLookup c entityType p fetchFunc = (Inr (Some cached), c))
   \<and> (map_of (pkRegistry c) (entityType, p) = None \<longrightarrow>
      regdLookup c entityType p None = (Inr None, c))
   \<and> (map_of (pkRegistry c) (entityType, p) = None \<and> f c = (Inr (Some ret), c1)
        \<and> hasattr ret ''entityType'' \<longrightarrow>
      (accepted (Some ret) \<and> map_of (pkRegistry c1) (regkey_of ret) = None \<longrightarrow>
         regdLookup c entityType p (Some f)
           = (Inr (Some ret), c1\<lparr>pkRegistry := pkRegistry c1 @ [(regkey_of ret, ret)]\<rparr>))
      \<and> (accepted (Some ret) \<and> map_of (pkRegistry c1) (regkey_of ret) = Some held \<longrightarrow>
         regdLookup c entityType p (Some f) = (Inr (Some held), c1))
      \<and> (\<not> eligible (Some ret) \<longrightarrow>
         regdLookup c entityType p (Some f) = (Inr (Some ret), c1)))
   \<and> (map_of (pkRegistry c) (entityType, p) = None \<and> f c = (Inr None, c1) \<longrightarrow>
      regdLookup c entityType p (Some f) = (Inr None, c1))
   \<and> (map_of (pkRegistry c) (entityType, p) = None \<and> f c = (Inl err, c1) \<longrightarrow>
      regdLookup c entityType p (Some f) = (Inl err, c1))"
proof (intro conjI impI)
  assume "map_of (pkRegistry c) (entityType, p) = Some cached"
  then show "regdLookup c entityType p fetchFunc = (Inr (Some cached), c)"
    by (simp add: regdLookup_def)
next
  assume "map_of (pkRegistry c) (entityType, p) = None"
  then show "regdLookup c entityType p None = (Inr None, c)"
    by (simp add: regdLookup_def)
next
  assume a: "map_of (pkRegistry c) (entityType, p) = None \<and> f c = (Inr (Some ret), c1)
        \<and> hasattr ret ''entityType''"
  then have r: "regdLookup c entityType p (Some f)
      = (Inr (fst (regd c1 (Some ret))), snd (regd c1 (Some ret)))"
    by (simp add: regdLookup_fetched)
  {
    assume "accepted (Some ret) \<and> map_of (pkRegistry c1) (regkey_of ret) = None"
    then show "regdLookup c entityType p (Some f)
           = (Inr (Some ret), c1\<lparr>pkRegistry := pkRegistry c1 @ [(regkey_of ret, ret)]\<rparr>)"
      by (simp add: r regd_new isRegisterable_accepted)
  }
  {
    assume "accepted (Some ret) \<and> map_of (pkRegistry c1) (regkey_of ret) = Some held"
    then show "regdLookup c entityType p (Some f) = (Inr (Some held), c1)"
      by (simp add: r regd_cached isRegisterable_accepted)
  }
  {
    assume "\<not> eligible (Some ret)"
    then show "regdLookup c entityType p (Some f) = (Inr (Some ret), c1)"
      by (simp add: r regd_answer_declined)
  }
next
  assume "map_of (pkRegistry c) (entityType, p) = None \<and> f c = (Inr None, c1)"
  then show "regdLookup c entityType p (Some f) = (Inr None, c1)"
    by (simp add: regdLookup_def)
next
  assume "map_of (pkRegistry c) (entityType, p) = None \<and> f c = (Inl err, c1)"
  then show "regdLookup c entityType p (Some f) = (Inl err, c1)"
    by (simp add: regdLookup_def)
qed

theorem regdLookup_contract_witness:
  "map_of (pkRegistry ctx_order) (''Order'', PyInt 42) = Some order1
   \<and> regdLookup ctx_order ''Order'' (PyInt 42) (Some fetch_order) = (Inr (Some order1), ctx_order)
   \<and> map_of (pkRegistry (mgr world0)) (''Order'', PyInt 42) = None
   \<and> regdLookup (mgr world0) ''Order'' (PyInt 42) None = (Inr None, mgr world0)
   \<and> hasattr fetched_order ''entityType'' \<and> accepted (Some fetched_order)
   \<and> regdLookup (mgr world0) ''Order'' (PyInt 42) (Some fetch_order)
        = (Inr (Some fetched_order),
           (mgr world0)\<lparr>pkRegistry := [((''Order'', PyInt 42), fetched_order)]\<rparr>)
   \<and> regdLookup (mgr world0) ''Invoice'' (PyInt 42) (Some (\<lambda>c. fetch_order ctx_order))
        = (Inr (Some order1), ctx_order)
   \<and> hasattr fetched_unsafe ''entityType'' \<and> \<not> eligible (Some fetched_unsafe)
   \<and> regdLookup (mgr world0) ''Order'' (PyInt 42) (Some fetch_unsafe)
        = (Inr (Some fetched_unsafe), mgr world0)
   \<and> regdLookup (mgr world0) ''Order'' (PyInt 42) (Some fetch_nothing) = (Inr None, mgr world0)
   \<and> regdLookup (mgr world0) ''Order'' (PyInt 42) (Some fetch_missing)
        = (Inl ObjectDoesNotExist, mgr world0)"
proof -
  have h: "map_of (pkRegistry ctx_order) (''Order'', PyInt 42) = Some order1"
    "map_of (pkRegistry (mgr world0)) (''Order'', PyInt 42) = None"
    "map_of (pkRegistry (mgr world0)) (''Invoice'', PyInt 42) = None"
    "pkRegistry (mgr world0) = []"
    by (simp_all add: ctx_order_def world0_def)
  have e: "hasattr fetched_order ''entityType''" "accepted (Some fetched_order)"
    "regkey_of fetched_order = (''Order'', PyInt 42)"
    "hasattr fetched_unsafe ''entityType''" "\<not> eligible (Some fetched_unsafe)"
    by (simp_all add: hasattr_def accepted_def eligible_def falsy_key_def canBeRegd_def
        regkey_of_def fetched_order_def fetched_unsafe_def)
  have f: "fetch_order (mgr world0) = (Inr (Some fetched_order), mgr world0)"
    "fetch_order ctx_order = (Inr (Some fetched_order), ctx_order)"
    "fetch_unsafe (mgr world0) = (Inr (Some fetched_unsafe), mgr world0)"
    "fetch_nothing (mgr world0) = (Inr None, mgr world0)"
    "fetch_missing (mgr world0) = (Inl ObjectDoesNotExist, mgr world0)"
    by (simp_all add: fetch_order_def fetch_unsafe_def fetch_nothing_def fetch_missing_def)
  note t1 = regdLookup_contract [of ctx_order "''Order''" "PyInt 42" order1 "Some fetch_order"]
  note t2 = regdLookup_contract [of "mgr world0" "''Order''" "PyInt 42" _ _ fetch_order
      fetched_order "mgr world0"]
  note t3 = regdLookup_contract [of "mgr world0" "''Invoice''" "PyInt 42" _ _
      "\<lambda>c. fetch_order ctx_order" fetched_order ctx_order order1]
  note t4 = regdLookup_contract [of "mgr world0" "''Order''" "PyInt 42" _ _ fetch_unsafe
      fetched_unsafe "mgr world0"]
  note t5 = regdLookup_contract [of "mgr world0" "''Order''" "PyInt 42" _ _ fetch_nothing _
      "mgr world0"]
  note t6 = regdLookup_contract [of "mgr world0" "''Order''" "PyInt 42" _ _ fetch_missing _
      "mgr world0" _ ObjectDoesNotExist]
  have g2: "regdLookup (mgr world0) ''Order'' (PyInt 42) (Some fetch_order)
        = (Inr (Some fetched_order),
           (mgr world0)\<lparr>pkRegistry := [((''Order'', PyInt 42), fetched_order)]\<rparr>)"
    using t2 h e f by simp
  have g3: "regdLookup (mgr world0) ''Invoice'' (PyInt 42) (Some (\<lambda>c. fetch_order ctx_order))
        = (Inr (Some order1), ctx_order)"
    using t3 h e f by simp
  have g4: "regdLookup (mgr world0) ''Order'' (PyInt 42) (Some fetch_unsafe)
        = (Inr (Some fetched_unsafe), mgr world0)"
    using t4 h e f by simp
  show ?thesis
    using t1 t5 t6 h e f g2 g3 g4 by simp
qed

section \<open>Parent-chain registration\<close>

lemma contribute_to_class_invoice: "contribute_to_class invoice_model = Inr invoice_objects"
  by (simp add: contribute_to_class_def invoice_model_def document_model_def asset_model_def
      invoice_objects_def insert_commute)

lemma register_each_allRegd: "register_each c rs = snd (allRegd c (map Some rs))"
  by (induction rs arbitrary: c) (auto split: prod.splits)

lemma allRegd_snd_append:
  "snd (allRegd c (xs @ ys)) = snd (allRegd (snd (allRegd c xs)) ys)"
  by (simp add: allRegd_append)

lemma register_parents_allRegd:
  "register_parents c rows ps pks =
     snd (allRegd c (map Some (concat (map (\<lambda>p. fetchEntities rows p pks) ps))))"
  by (induction ps arbitrary: c) (simp_all add: register_each_allRegd allRegd_snd_append)

lemma registerParentEntities_allRegd:
  "registerParentEntities c rows objects entities =
     snd (allRegd c (map Some (fetched_parents rows objects entities)))"
  by (simp add: registerParentEntities_def fetched_parents_def register_parents_allRegd)

lemma first_accepted_Some:
  "x \<in> set xs \<Longrightarrow> accepted x \<Longrightarrow> key_of x = Some k \<Longrightarrow> first_accepted k xs \<noteq> None"
proof -
  assume a: "x \<in> set xs" "accepted x" "key_of x = Some k"
  then obtain y where y: "find (\<lambda>x. accepted x \<and> key_of x = Some k) xs = Some y"
    by (cases "find (\<lambda>x. accepted x \<and> key_of x = Some k) xs") (auto simp: find_None_iff)
  then have "accepted y"
    by (auto simp: find_Some_iff)
  then have "y \<noteq> None"
    by (cases y) (auto simp: accepted_def eligible_def)
  then show ?thesis
    by (simp add: first_accepted_def y)
qed

lemma first_accepted_None:
  "(\<forall>x \<in> set xs. key_of x = Some k \<longrightarrow> \<not> accepted x) \<Longrightarrow> first_accepted k xs = None"
proof -
  assume "\<forall>x \<in> set xs. key_of x = Some k \<longrightarrow> \<not> accepted x"
  then have "find (\<lambda>x. accepted x \<and> key_of x = Some k) xs = None"
    by (auto simp: find_None_iff)
  then show ?thesis
    by (simp add: first_accepted_def)
qed

lemma allRegd_noop:
  "(\<forall>x \<in> set xs. \<forall>k. accepted x \<and> key_of x = Some k \<longrightarrow> map_of (pkRegistry c) k \<noteq> None)
     \<Longrightarrow> snd (allRegd c xs) = c"
proof (induction xs arbitrary: c)
  case Nil
  then show ?case by simp
next
  case (Cons x xs)
  have "snd (regd c x) = c"
  proof (cases "accepted x")
    case False
    then show ?thesis
      by (simp add: regd_ineligible isRegisterable_accepted)
  next
    case True
    then obtain a where a: "x = Some a"
      by (cases x) (auto simp: accepted_def eligible_def)
    have "map_of (pkRegistry c) (regkey_of a) \<noteq> None"
      using Cons.prems True a by (cases "regkey_of a") (auto simp: key_of_def)
    then obtain held where "map_of (pkRegistry c) (regkey_of a) = Some held"
      by auto
    then show ?thesis
      using True a by (simp add: regd_cached isRegisterable_accepted)
  qed
  moreover have "snd (allRegd c (x # xs)) = snd (allRegd (snd (regd c x)) xs)"
    by (simp split: prod.splits)
  moreover have "snd (allRegd c xs) = c"
    using Cons.prems by (intro Cons.IH) simp
  ultimately show ?case
    by simp
qed

lemma parent_smaller: "(p, f) \<in> set (meta_parents m) \<Longrightarrow> size p < size m"
proof -
  have le: "(p, f) \<in> set q \<Longrightarrow> size p < Suc (size_list (size_prod size (\<lambda>x. 0)) q)" for q
    by (induction q) auto
  assume "(p, f) \<in> set (meta_parents m)"
  then show ?thesis
    using le [of "meta_parents m"] by (cases m) simp
qed

lemma is_chain_smaller: "is_chain m ps \<Longrightarrow> a \<in> set ps \<Longrightarrow> size a < size m"
proof (induction ps arbitrary: m)
  case Nil
  then show ?case by simp
next
  case (Cons p ps)
  from Cons.prems(1) obtain f where f: "meta_parents m = [(p, f)]" and c: "is_chain p ps"
    by (cases "meta_parents m") auto
  have pm: "size p < size m"
    using parent_smaller [of p f m] f by simp
  show ?case
  proof (cases "a = p")
    case True
    then show ?thesis using pm by simp
  next
    case False
    then have "size a < size p"
      using Cons.IH [OF c] Cons.prems(2) by simp
    then show ?thesis using pm by simp
  qed
qed

lemma parents_loop_chain:
  "is_chain p ps \<Longrightarrow> fst (snd (parents_loop [(p, f)] ns cs l)) = cs @ p # ps"
proof (induction ps arbitrary: p f ns cs l)
  case Nil
  then show ?case by simp
next
  case (Cons q qs)
  from Cons.prems obtain g where g: "meta_parents p = [(q, g)]" and c: "is_chain q qs"
    by (cases "meta_parents p") auto
  show ?case
    using Cons.IH [OF c, of g "insert (field_name f @ ''__pk'') ns" "cs @ [p]" "Some p"]
    by (simp add: g)
qed

lemma contribute_to_class_chain:
  assumes "is_chain m ps" and "contribute_to_class m = Inr objects"
  shows "parentEntityClasses objects = rev ps"
proof -
  have p: "parentEntityClasses objects
      = rev (fst (snd (parents_loop (meta_parents m) {''pk''} [] None)))"
    using assms(2)
    by (auto simp: contribute_to_class_def split: prod.splits option.splits sum.splits)
  show ?thesis
  proof (cases ps)
    case Nil
    then show ?thesis
      using assms(1) by (simp add: p)
  next
    case (Cons q qs)
    with assms(1) obtain g where g: "meta_parents m = [(q, g)]" and c: "is_chain q qs"
      by (cases "meta_parents m") auto
    show ?thesis
      using parents_loop_chain [OF c, of g "{''pk''}" "[]" None] by (simp add: p g Cons)
  qed
qed


text \<open>
  Claim C9, as stated, fails: an ancestor row whose policy hook answers false is fetched
  for the invoice and passed to \<^verbatim>\<open>regd\<close>, which hands it back without storing
  it, so no instance is registered for that (ancestor type, key).
\<close>

theorem registerParentEntities_counterexample:
  "asset_model \<in> set (parentEntityClasses invoice_objects)
   \<and> fetchEntities [asset_declined] asset_model (map pk [invoice1]) = [asset_declined]
   \<and> registerParentEntities (mgr world0) [asset_declined] invoice_objects [invoice1] = mgr world0
   \<and> map_of (pkRegistry
         (registerParentEntities (mgr world0) [asset_declined] invoice_objects [invoice1]))
        (''Asset'', PyInt 42) = None"
proof -
  have n: "\<not> isRegisterable (Some asset_declined)"
    by (simp add: isRegisterable_def canBeRegd_def asset_declined_def)
  have f: "fetchEntities [asset_declined] asset_model [PyInt 42] = [asset_declined]"
    "fetchEntities [asset_declined] document_model [PyInt 42] = []"
    by (simp_all add: fetchEntities_def asset_declined_def asset_model_def document_model_def)
  have r: "registerParentEntities (mgr world0) [asset_declined] invoice_objects [invoice1]
      = mgr world0"
    by (simp add: registerParentEntities_def invoice_objects_def invoice1_def f
        regd_ineligible [OF n])
  show ?thesis
    using f by (simp add: r) (simp add: invoice_objects_def invoice1_def world0_def)
qed

text \<open>
  Claim C9, amended. \<^verbatim>\<open>registerParentEntities\<close> fetches the rows of the classes of
  the parent chain whose key is among the keys of the given entities and passes each to
  \<^verbatim>\<open>regd\<close>. Afterwards the registry holds, under each key, the instance it held
  before or else the first accepted row fetched with that key; the keys stay distinct,
  so there is one instance per (ancestor type, key). Every accepted fetched row has an
  entry under (ancestor type, key); a key that was free and for which only rows that
  are not eligible were fetched stays free. A second call, on entities whose keys
  are among those of the first and with the rows fetched anew, leaves the context
  exactly as the first call left it. For a class with a chain of single inheritance,
  the parent classes that \<^verbatim>\<open>contribute_to_class\<close> computes are its ancestors from
  the most-base class to its parent, without the class itself.
\<close>

theorem registerParentEntities_no_duplicates:
  "map_of (pkRegistry (registerParentEntities c rows objects entities)) k
     = (case map_of (pkRegistry c) k of
          Some e0 \<Rightarrow> Some e0
        | None \<Rightarrow> first_accepted k (map Some (fetched_parents rows objects entities)))
   \<and> set (fetched_parents rows objects entities)
     = {r \<in> set rows. pk r \<in> pk ` set entities
                      \<and> cls r \<in> model_name ` set (parentEntityClasses objects)}
   \<and> (distinct (map fst (pkRegistry c)) \<longrightarrow>
      distinct (map fst (pkRegistry (registerParentEntities c rows objects entities))))
   \<and> (p \<in> set (parentEntityClasses objects) \<and> cls r = model_name p \<and> r \<in> set rows
        \<and> pk r \<in> pk ` set entities \<and> accepted (Some r) \<longrightarrow>
      map_of (pkRegistry (registerParentEntities c rows objects entities)) (model_name p, pk r)
        \<noteq> None)
   \<and> (map_of (pkRegistry c) k = None
        \<and> (\<forall>r \<in> set (fetched_parents rows objects entities).
              regkey_of r = k \<longrightarrow> \<not> eligible (Some r)) \<longrightarrow>
      map_of (pkRegistry (registerParentEntities c rows objects entities)) k = None)
   \<and> (refetch_of rows rows2 \<and> pk ` set entities2 \<subseteq> pk ` set entities \<longrightarrow>
      registerParentEntities (registerParentEntities c rows objects entities) rows2 objects entities2
        = registerParentEntities c rows objects entities)
   \<and> (is_chain m ps \<and> contribute_to_class m = Inr objects \<longrightarrow>
      parentEntityClasses objects = rev ps \<and> m \<notin> set (parentEntityClasses objects))"
proof -
  let ?c1 = "registerParentEntities c rows objects entities"
  let ?fp = "fetched_parents rows objects entities"
  have 1: "map_of (pkRegistry ?c1) k
     = (case map_of (pkRegistry c) k of
          Some e0 \<Rightarrow> Some e0
        | None \<Rightarrow> first_accepted k (map Some ?fp))" for k
    by (simp add: registerParentEntities_allRegd allRegd_final)
  have 2: "set ?fp = {r \<in> set rows. pk r \<in> pk ` set entities
                      \<and> cls r \<in> model_name ` set (parentEntityClasses objects)}"
    by (auto simp: fetched_parents_def fetchEntities_def)
  have 3: "distinct (map fst (pkRegistry c)) \<longrightarrow> distinct (map fst (pkRegistry ?c1))"
    by (simp add: registerParentEntities_allRegd allRegd_distinct)
  have reg: "map_of (pkRegistry ?c1) (regkey_of r) \<noteq> None"
    if "r \<in> set ?fp" "accepted (Some r)" for r
  proof (cases "map_of (pkRegistry c) (regkey_of r)")
    case None
    have "first_accepted (regkey_of r) (map Some ?fp) \<noteq> None"
      using that by (intro first_accepted_Some [of "Some r"]) (auto simp: key_of_def)
    then show ?thesis
      by (simp add: 1 None)
  next
    case (Some e0)
    then show ?thesis
      by (simp add: 1)
  qed
  have 4: "p \<in> set (parentEntityClasses objects) \<and> cls r = model_name p \<and> r \<in> set rows
        \<and> pk r \<in> pk ` set entities \<and> accepted (Some r) \<longrightarrow>
      map_of (pkRegistry ?c1) (model_name p, pk r) \<noteq> None"
  proof
    assume a: "p \<in> set (parentEntityClasses objects) \<and> cls r = model_name p \<and> r \<in> set rows
        \<and> pk r \<in> pk ` set entities \<and> accepted (Some r)"
    then have "r \<in> set ?fp"
      unfolding 2 by auto
    from reg [OF this] a show "map_of (pkRegistry ?c1) (model_name p, pk r) \<noteq> None"
      by (simp add: regkey_of_def)
  qed
  have 5: "map_of (pkRegistry c) k = None
        \<and> (\<forall>r \<in> set ?fp. regkey_of r = k \<longrightarrow> \<not> eligible (Some r)) \<longrightarrow>
      map_of (pkRegistry ?c1) k = None"
  proof
    assume a: "map_of (pkRegistry c) k = None
        \<and> (\<forall>r \<in> set ?fp. regkey_of r = k \<longrightarrow> \<not> eligible (Some r))"
    have "first_accepted k (map Some ?fp) = None"
      using a by (intro first_accepted_None) (auto simp: key_of_def accepted_def)
    then show "map_of (pkRegistry ?c1) k = None"
      using a by (simp add: 1)
  qed
  have 6: "refetch_of rows rows2 \<and> pk ` set entities2 \<subseteq> pk ` set entities \<longrightarrow>
      registerParentEntities ?c1 rows2 objects entities2 = ?c1"
  proof
    assume a: "refetch_of rows rows2 \<and> pk ` set entities2 \<subseteq> pk ` set entities"
    have "map_of (pkRegistry ?c1) k \<noteq> None"
      if x: "x \<in> set (map Some (fetched_parents rows2 objects entities2))"
        and acc: "accepted x" and k: "key_of x = Some k" for x k
    proof -
      from x obtain r2 where r2: "x = Some r2" "r2 \<in> set (fetched_parents rows2 objects entities2)"
        by auto
      then have m: "r2 \<in> set rows2" "pk r2 \<in> pk ` set entities2"
        "cls r2 \<in> model_name ` set (parentEntityClasses objects)"
        by (auto simp: fetched_parents_def fetchEntities_def)
      with a acc r2 obtain r where r: "r \<in> set rows" "regkey_of r = regkey_of r2"
        "accepted (Some r)"
        by (auto simp: refetch_of_def)
      then have "r \<in> set ?fp"
        unfolding 2 using m a by (auto simp: regkey_of_def)
      from reg [OF this r(3)] show ?thesis
        using r(2) k r2 by (simp add: key_of_def)
    qed
    then have "snd (allRegd ?c1 (map Some (fetched_parents rows2 objects entities2))) = ?c1"
      by (intro allRegd_noop) blast
    then show "registerParentEntities ?c1 rows2 objects entities2 = ?c1"
      by (simp add: registerParentEntities_allRegd [of ?c1])
  qed
  have 7: "is_chain m ps \<and> contribute_to_class m = Inr objects \<longrightarrow>
      parentEntityClasses objects = rev ps \<and> m \<notin> set (parentEntityClasses objects)"
  proof
    assume a: "is_chain m ps \<and> contribute_to_class m = Inr objects"
    then have e: "parentEntityClasses objects = rev ps"
      using contribute_to_class_chain [of m ps objects] by blast
    have "m \<notin> set ps"
      using is_chain_smaller [of m ps m] a by auto
    then show "parentEntityClasses objects = rev ps \<and> m \<notin> set (parentEntityClasses objects)"
      by (simp add: e)
  qed
  show ?thesis
    using 1 [of k] 2 3 4 5 6 7 by blast
qed


theorem registerParentEntities_no_duplicates_witness:
  "contribute_to_class invoice_model = Inr invoice_objects
   \<and> is_chain invoice_model [document_model, asset_model]
   \<and> parentEntityClasses invoice_objects = [asset_model, document_model]
   \<and> invoice_model \<notin> set (parentEntityClasses invoice_objects)
   \<and> map_of (pkRegistry ctx_order) (''Order'', PyInt 42) = Some order1
   \<and> distinct (map fst (pkRegistry ctx_order))
   \<and> pkRegistry (registerParentEntities ctx_order (parent_rows 10) invoice_objects [invoice1])
       = [((''Order'', PyInt 42), order1),
          ((''Asset'', PyInt 42), \<lparr>oid = 10, cls = ''Asset'', pk = PyInt 42, hook = ModelHook, attrs = []\<rparr>),
          ((''Document'', PyInt 42), \<lparr>oid = 11, cls = ''Document'', pk = PyInt 42, hook = ModelHook, attrs = []\<rparr>)]
   \<and> refetch_of (parent_rows 10) (parent_rows 20)
   \<and> registerParentEntities
         (registerParentEntities ctx_order (parent_rows 10) invoice_objects [invoice1])
         (parent_rows 20) invoice_objects [invoice1]
       = registerParentEntities ctx_order (parent_rows 10) invoice_objects [invoice1]
   \<and> \<not> eligible (Some asset_declined)
   \<and> fetched_parents [asset_declined] invoice_objects [invoice1] = [asset_declined]
   \<and> map_of (pkRegistry
         (registerParentEntities (mgr world0) [asset_declined] invoice_objects [invoice1]))
        (''Asset'', PyInt 42) = None"
proof -
  let ?a = "\<lparr>oid = 10, cls = ''Asset'', pk = PyInt 42, hook = ModelHook, attrs = []\<rparr>"
  have ch: "is_chain invoice_model [document_model, asset_model]"
    by (simp add: invoice_model_def document_model_def asset_model_def)
  have m: "map_of (pkRegistry ctx_order) (''Order'', PyInt 42) = Some order1"
    and d: "distinct (map fst (pkRegistry ctx_order))"
    by (simp_all add: ctx_order_def)
  have rf: "refetch_of (parent_rows 10) (parent_rows 20)"
    by (simp add: refetch_of_def parent_rows_def regkey_of_def accepted_def eligible_def
        falsy_key_def canBeRegd_def)
  have sub: "pk ` set [invoice1] \<subseteq> pk ` set [invoice1]"
    by simp
  have p: "asset_model \<in> set (parentEntityClasses invoice_objects)"
    "cls ?a = model_name asset_model" "?a \<in> set (parent_rows 10)"
    "pk ?a \<in> pk ` set [invoice1]" "accepted (Some ?a)"
    by (simp_all add: invoice_objects_def asset_model_def parent_rows_def invoice1_def
        accepted_def eligible_def falsy_key_def canBeRegd_def)
  have reg: "pkRegistry (registerParentEntities ctx_order (parent_rows 10) invoice_objects [invoice1])
       = [((''Order'', PyInt 42), order1),
          ((''Asset'', PyInt 42), ?a),
          ((''Document'', PyInt 42), \<lparr>oid = 11, cls = ''Document'', pk = PyInt 42, hook = ModelHook, attrs = []\<rparr>)]"
    by (simp add: registerParentEntities_def invoice_objects_def fetchEntities_def parent_rows_def
        invoice1_def asset_model_def document_model_def regd_def isRegisterable_def canBeRegd_def
        regkey_of_def ctx_order_def)
  have dec: "\<not> eligible (Some asset_declined)"
    "regkey_of asset_declined = (''Asset'', PyInt 42)"
    "fetched_parents [asset_declined] invoice_objects [invoice1] = [asset_declined]"
    "map_of (pkRegistry (mgr world0)) (''Asset'', PyInt 42) = None"
    by (simp_all add: eligible_def canBeRegd_def asset_declined_def regkey_of_def
        fetched_parents_def fetchEntities_def invoice_objects_def invoice1_def asset_model_def
        document_model_def world0_def)
  note t = registerParentEntities_no_duplicates [of ctx_order "parent_rows 10" invoice_objects
      "[invoice1]" "(''Order'', PyInt 42)" asset_model ?a "parent_rows 20" "[invoice1]"
      invoice_model "[document_model, asset_model]"]
  note u = registerParentEntities_no_duplicates [of "mgr world0" "[asset_declined]"
      invoice_objects "[invoice1]" "(''Asset'', PyInt 42)" asset_model ?a "[]" "[]"
      invoice_model "[document_model, asset_model]"]
  have "parentEntityClasses invoice_objects = rev [document_model, asset_model]
      \<and> invoice_model \<notin> set (parentEntityClasses invoice_objects)"
    using t ch contribute_to_class_invoice by blast
  then have chain: "parentEntityClasses invoice_objects = [asset_model, document_model]"
    "invoice_model \<notin> set (parentEntityClasses invoice_objects)"
    by (simp, blast)
  have "map_of (pkRegistry (mgr world0)) (''Asset'', PyInt 42) = None
        \<and> (\<forall>r \<in> set (fetched_parents [asset_declined] invoice_objects [invoice1]).
              regkey_of r = (''Asset'', PyInt 42) \<longrightarrow> \<not> eligible (Some r)) \<longrightarrow>
      map_of (pkRegistry
         (registerParentEntities (mgr world0) [asset_declined] invoice_objects [invoice1]))
        (''Asset'', PyInt 42) = None"
    using u by blast
  then have none: "map_of (pkRegistry
         (registerParentEntities (mgr world0) [asset_declined] invoice_objects [invoice1]))
        (''Asset'', PyInt 42) = None"
    using dec by simp
  have idem: "registerParentEntities
         (registerParentEntities ctx_order (parent_rows 10) invoice_objects [invoice1])
         (parent_rows 20) invoice_objects [invoice1]
       = registerParentEntities ctx_order (parent_rows 10) invoice_objects [invoice1]"
    using t rf sub by blast
  show ?thesis
    using ch m d rf reg dec chain none idem contribute_to_class_invoice by simp
qed

section \<open>The cache-aware fetch\<close>

lemma get_single:
  "get self super_get (Some c) args [(k0, v)] =
     (if is_uuid v \<and> strip_exact k0 \<in> pkAttNames self then
        (case regdLookup c (model_name (manager_model self)) v
                (Some (fetch_in_context (super_get args [(k0, v)])))
         of (r, c') \<Rightarrow> (r, Some c'))
      else
        (case map_of (oneToOneAttNames self) (strip_exact k0) of
           Some f \<Rightarrow>
             (case find (\<lambda>(p, obj). getattr obj (field_name f @ ''_id'') = v)
                     (registeredEntities c (model_name (manager_model self)))
              of Some (p, obj) \<Rightarrow> (Inr (Some obj), Some c)
               | None \<Rightarrow> super_get args [(k0, v)] (Some c))
         | None \<Rightarrow> super_get args [(k0, v)] (Some c)))"
  by (simp add: get_def current_def Let_def)

lemma get_two_keywords:
  "get self super_get (Some c) args (kv1 # kv2 # kw) = super_get args (kv1 # kv2 # kw) (Some c)"
  by (cases kv1) (simp add: get_def current_def)

text \<open>
  Claim C8. The registry lookup is to be taken only for a lookup with exactly one
  criterion. \<^verbatim>\<open>get\<close> counts the keyword arguments and does not look at the
  positional ones: with the invoice registered, a lookup with the positional criterion
  that the total is 5 and the keyword criterion on the primary key returns the
  registered invoice, whose total is 3, where the query path finds no such row. The
  same lookup with nothing registered goes through the fetch function, which applies
  the positional criterion and raises; and with the criterion on the total given as a
  second keyword the query path is used and raises.
\<close>

theorem get_ignores_positional_criteria:
  "\<not> total_is_5 invoice_a
   \<and> get invoice_objects (table_get [invoice_row]) (Some ctx_invoice)
         [total_is_5] [(''pk'', PyUUID 7)]
       = (Inr (Some invoice_a), Some ctx_invoice)
   \<and> table_get [invoice_row] [total_is_5] [(''pk'', PyUUID 7)] (Some ctx_invoice)
       = (Inl ObjectDoesNotExist, Some ctx_invoice)
   \<and> get invoice_objects (table_get [invoice_row]) (Some (mgr world0))
         [total_is_5] [(''pk'', PyUUID 7)]
       = (Inl ObjectDoesNotExist, Some (mgr world0))
   \<and> get invoice_objects (table_get [invoice_row]) (Some ctx_invoice)
         [] [(''pk'', PyUUID 7), (''total'', PyInt 5)]
       = (Inl ObjectDoesNotExist, Some ctx_invoice)
   \<and> get invoice_objects (table_get [invoice_row]) (Some ctx_invoice)
         [] [(''pk'', PyUUID 7)]
       = (Inr (Some invoice_a), Some ctx_invoice)"
proof -
  have s: "strip_exact ''pk'' = ''pk''"
    by (simp add: strip_exact_def suffix_def)
  have pk: "''pk'' \<in> pkAttNames invoice_objects"
    "model_name (manager_model invoice_objects) = ''Invoice''"
    by (simp_all add: invoice_objects_def invoice_model_def)
  have n: "\<not> total_is_5 invoice_a" "\<not> total_is_5 invoice_row"
    by (simp_all add: total_is_5_def getattr_def invoice_a_def invoice_row_def)
  have hit: "regdLookup ctx_invoice ''Invoice'' (PyUUID 7) fo
      = (Inr (Some invoice_a), ctx_invoice)" for fo
    by (simp add: regdLookup_def ctx_invoice_def)
  have q: "table_get [invoice_row] [total_is_5] kw cx = (Inl ObjectDoesNotExist, cx)"
    for kw cx
    using n by (simp add: table_get_def)
  have q2: "table_get [invoice_row] [] [(''pk'', PyUUID 7), (''total'', PyInt 5)] cx
      = (Inl ObjectDoesNotExist, cx)" for cx
    by (simp add: table_get_def field_value_def getattr_def invoice_row_def)
  have miss: "regdLookup (mgr world0) ''Invoice'' (PyUUID 7)
        (Some (fetch_in_context (table_get [invoice_row] [total_is_5] [(''pk'', PyUUID 7)])))
      = (Inl ObjectDoesNotExist, mgr world0)"
    by (simp add: regdLookup_def fetch_in_context_def q world0_def)
  show ?thesis
    using n by (simp add: get_single get_two_keywords s pk hit miss q q2)
qed

end
